theory Spec2Isabelle
  imports Complex_Main "HOL-Library.Word"
begin

section \<open>Exceptions\<close>

text \<open>
  The Python exceptions that the modelled functions raise. A function that can raise
  returns \<open>py_error + 'a\<close>, with \<open>Inl\<close> for the exception, or the state it leaves
  together with a \<open>py_error option\<close> where that state matters. \<open>ModelError\<close>
  stands for whatever exception the external model evaluation raises (an analysis
  error, a divergence); its argument tells two such exceptions apart. \<open>NotModelled\<close> is
  no Python exception: it marks the few places where the source hands a value to numpy
  or scipy in a way the model does not cover (an assignment into a scipy matrix, an
  array of an unexpected rank, an entry of \<open>np.empty\<close> that was never written). No
  theorem below is about such a call.
\<close>

datatype py_error =
    IndexError
  | KeyError
  | ValueError
  | TypeError
  | OverflowError
  | ZeroDivisionError
  | UnboundLocalError
  | ModelError nat
  | NotModelled

section \<open>Double-precision arithmetic\<close>

text \<open>
  The arrays of the program hold \<open>numpy.float64\<close> values, and \<open>+\<close>, \<open>-\<close>, \<open>+=\<close> and \<open>-=\<close> on
  them are the IEEE 754 binary64 operations: the exact result, rounded to the nearest
  value with a 53-bit significand, a tie going to the even significand. A finite
  double is modelled as the real number it denotes. \<open>rne\<close> rounds a real to the nearest
  integer, ties to even; \<open>binade x\<close> is the exponent \<open>e\<close> with
  \<open>2 ^ e \<le> \<bar>x\<bar> < 2 ^ (e + 1)\<close>, not below that of the smallest normal number;
  \<open>round64\<close> rounds to a multiple of \<open>2 ^ (e - 52)\<close>. Results beyond the largest finite
  double (infinities) and NaN are not modelled.
\<close>

definition rne :: "real \<Rightarrow> int" where
  "rne x =
     (let f = \<lfloor>x\<rfloor>
      in if x - of_int f < 1 / 2 then f
         else if x - of_int f > 1 / 2 then f + 1
         else if even f then f else f + 1)"

definition binade :: "real \<Rightarrow> int" where
  "binade x = max (- 1022) \<lfloor>log 2 \<bar>x\<bar>\<rfloor>"

definition round_at :: "int \<Rightarrow> real \<Rightarrow> real" where
  "round_at e x = of_int (rne (x / 2 powi (e - 52))) * 2 powi (e - 52)"

definition round64 :: "real \<Rightarrow> real" where
  "round64 x = (if x = 0 then 0 else round_at (binade x) x)"

text \<open>Addition and subtraction of two doubles.\<close>

definition f64_add :: "real \<Rightarrow> real \<Rightarrow> real" where
  "f64_add x y = round64 (x + y)"

definition f64_sub :: "real \<Rightarrow> real \<Rightarrow> real" where
  "f64_sub x y = round64 (x - y)"

section \<open>numpy arrays\<close>

text \<open>
  The operations of numpy that the modelled functions use. An array is its shape and
  its elements in row-major order; a scalar is the array of shape \<open>()\<close>. One-dimensional
  index arrays and vectors are plain lists. The elements are the real numbers that
  the doubles denote; the operations of this section copy elements and do no
  arithmetic.
\<close>

record ndarray =
  shape :: "nat list"
  data :: "real list"

text \<open>
  \<open>a[idxs] = vs\<close> with an index array writes the values one after the other, so the
  last one written at a position stays.
\<close>

definition scatter :: "(nat \<times> 'a) list \<Rightarrow> 'a list \<Rightarrow> 'a list" where
  "scatter ps a = fold (\<lambda>(i, v) b. b[i := v]) ps a"

text \<open>\<open>np.atleast_2d\<close> and \<open>ndarray.reshape\<close>, which raises when the sizes differ.\<close>

definition atleast_2d :: "ndarray \<Rightarrow> ndarray" where
  "atleast_2d a =
     (case shape a of
        [] \<Rightarrow> a\<lparr>shape := [1, 1]\<rparr>
      | [n] \<Rightarrow> a\<lparr>shape := [1, n]\<rparr>
      | _ \<Rightarrow> a)"

definition reshape :: "ndarray \<Rightarrow> nat list \<Rightarrow> py_error + ndarray" where
  "reshape a shp = (if prod_list shp = length (data a) then Inr (a\<lparr>shape := shp\<rparr>) else Inl ValueError)"

text \<open>
  \<open>dst[:] = src\<close> broadcasts \<open>src\<close> to the shape of \<open>dst\<close>: leading dimensions of length
  1 that \<open>src\<close> has in excess are dropped, missing leading dimensions count as 1, and
  then every dimension of \<open>src\<close> must be that of \<open>dst\<close> or 1, where it is repeated.
  Otherwise numpy raises \<open>ValueError\<close>. A 0-dimensional \<open>dst\<close> cannot be sliced.
\<close>

fun strip_ones :: "nat \<Rightarrow> nat list \<Rightarrow> nat list" where
  "strip_ones k [] = []"
| "strip_ones k (d # ds) = (if k < length (d # ds) \<and> d = 1 then strip_ones k ds else d # ds)"

definition pad_ones :: "nat \<Rightarrow> nat list \<Rightarrow> nat list" where
  "pad_ones k s = replicate (k - length s) 1 @ s"

definition chunks :: "nat \<Rightarrow> nat \<Rightarrow> 'a list \<Rightarrow> 'a list list" where
  "chunks k m d = map (\<lambda>i. take k (drop (i * k) d)) [0..<m]"

fun bdata :: "nat list \<Rightarrow> nat list \<Rightarrow> 'a list \<Rightarrow> 'a list" where
  "bdata (n # ns) (m # ms) d =
     (if m = n then concat (map (bdata ns ms) (chunks (prod_list ms) m d))
      else concat (replicate n (bdata ns ms d)))"
| "bdata _ _ d = d"

definition broadcastable :: "nat list \<Rightarrow> nat list \<Rightarrow> bool" where
  "broadcastable dst src \<longleftrightarrow> list_all2 (\<lambda>n m. m = n \<or> m = 1) dst src"

definition assign_all :: "ndarray \<Rightarrow> ndarray \<Rightarrow> py_error + ndarray" where
  "assign_all dst src =
     (if shape dst = [] then Inl IndexError
      else
        let k = length (shape dst);
            s = pad_ones k (strip_ones k (shape src))
        in if broadcastable (shape dst) s
           then Inr (dst\<lparr>data := bdata (shape dst) s (data src)\<rparr>)
           else Inl ValueError)"

text \<open>
  The shapes that \<open>dst[:] = src\<close> accepts for a one-dimensional \<open>dst\<close> of length \<open>k\<close>:
  that of a scalar, and those whose dimensions are all 1 but the last, which is 1 or
  \<open>k\<close>.
\<close>

definition broadcasts_1d :: "nat \<Rightarrow> nat list \<Rightarrow> bool" where
  "broadcasts_1d k shp \<longleftrightarrow>
     shp = [] \<or> (list_all (\<lambda>d. d = 1) (butlast shp) \<and> (last shp = 1 \<or> last shp = k))"


definition py_slice :: "'a list \<Rightarrow> nat \<Rightarrow> nat \<Rightarrow> 'a list" where
  "py_slice xs start stop = take (stop - start) (drop start xs)"




section \<open>\<open>utils/array_utils.py\<close>\<close>

subsection \<open>\<open>evenly_distrib_idxs\<close>\<close>

text \<open>
  \<^verbatim>\<open>
  def evenly_distrib_idxs(num_divisions, arr_size):
      base, leftover = divmod(arr_size, num_divisions)
      sizes = np.full(num_divisions, base, dtype=INT_DTYPE)
      sizes[:leftover] += 1
      offsets = np.zeros(num_divisions, dtype=INT_DTYPE)
      offsets[1:] = np.cumsum(sizes)[:-1]
      return sizes, offsets
  \<close>
  The arguments are Python integers (\<open>int\<close>); \<open>divmod\<close> rounds towards minus infinity, as
  \<open>div\<close> and \<open>mod\<close> on \<open>int\<close> do, and raises on a zero divisor. The two arrays hold
  integers of the fixed width \<open>INT_DTYPE\<close>. The constant is imported from
  \<open>openmdao.core.constants\<close>, which is not among the sources, so its width in bits is
  the parameter \<open>w\<close> of the model: \<open>np.full\<close> refuses a fill value outside the range of
  the element type (numpy before 2.0 wraps a value that still fits the unsigned type
  of that width and refuses the larger ones), and arithmetic inside the arrays wraps
  around. \<open>np.full\<close> also refuses a negative length. Memory limits are not modelled.
\<close>

definition fits :: "nat \<Rightarrow> int \<Rightarrow> bool" where
  "fits w x \<longleftrightarrow> - (2 ^ (w - 1)) \<le> x \<and> x < 2 ^ (w - 1)"

definition wrap :: "nat \<Rightarrow> int \<Rightarrow> int" where
  "wrap w x = (x + 2 ^ (w - 1)) mod 2 ^ w - 2 ^ (w - 1)"

fun cumsum_from :: "nat \<Rightarrow> int \<Rightarrow> int list \<Rightarrow> int list" where
  "cumsum_from w acc [] = []"
| "cumsum_from w acc (x # xs) = (let a = wrap w (acc + x) in a # cumsum_from w a xs)"

definition cumsum :: "nat \<Rightarrow> int list \<Rightarrow> int list" where
  "cumsum w xs = cumsum_from w 0 xs"

definition evenly_distrib_idxs :: "nat \<Rightarrow> int \<Rightarrow> int \<Rightarrow> py_error + int list \<times> int list" where
  "evenly_distrib_idxs w num_divisions arr_size =
     (if num_divisions = 0 then Inl ZeroDivisionError
      else
        let base = arr_size div num_divisions;
            leftover = arr_size mod num_divisions
        in if num_divisions < 0 then Inl ValueError
           else if \<not> fits w base then Inl OverflowError
           else
             let sizes0 = replicate (nat num_divisions) base;
                 sizes = map (\<lambda>x. wrap w (x + 1)) (take (nat leftover) sizes0)
                           @ drop (nat leftover) sizes0;
                 offsets0 = replicate (nat num_divisions) 0;
                 offsets = take 1 offsets0 @ butlast (cumsum w sizes)
             in Inr (sizes, offsets))"

subsection \<open>\<open>ValueRepeater\<close>\<close>

text \<open>
  \<^verbatim>\<open>
  class ValueRepeater(object):
      def __init__(self, val, size):
          self.val = val
          self.size = size

      def __getitem__(self, idx):
          i = idx
          if idx < 0:
              idx += self.size
          if idx >= self.size:
              raise IndexError(f"index {i} is out of bounds for size {self.size}")
          return self.val
  \<close>
  \<open>size\<close> and \<open>idx\<close> are Python integers, hence \<open>int\<close>.
\<close>

record 'a ValueRepeater =
  val :: 'a
  size :: int

definition ValueRepeater_init :: "'a \<Rightarrow> int \<Rightarrow> 'a ValueRepeater" where
  "ValueRepeater_init v n = \<lparr>val = v, size = n\<rparr>"

definition ValueRepeater_getitem :: "'a ValueRepeater \<Rightarrow> int \<Rightarrow> py_error + 'a" where
  "ValueRepeater_getitem self idx =
     (let idx' = (if idx < 0 then idx + size self else idx)
      in if idx' \<ge> size self then Inl IndexError else Inr (val self))"

section \<open>\<open>approximation_schemes/approximation_scheme.py\<close>\<close>

subsection \<open>Vectors and the model evaluation\<close>

text \<open>
  \<open>ApproximationScheme._run_point\<close> works on the vectors of the system through
  \<open>_views_flat\<close> (a dict from a variable's absolute name to the flat array of its
  values), \<open>get_data\<close>, \<open>set_data\<close> and \<open>set_vec\<close>. A vector is modelled as that
  dict. The element type is a parameter (\<open>float64\<close> for finite differences, modelled
  by \<open>real\<close>; \<open>complex128\<close> under complex step), and so are its in-place operations
  \<open>+=\<close> and \<open>-=\<close>, called \<open>add\<close> and \<open>sub\<close> below: for \<open>float64\<close> arrays they are
  \<open>f64_add\<close> and \<open>f64_sub\<close>, which round.
\<close>

type_synonym 'a vec = "string \<rightharpoonup> 'a list"

record 'a system =
  inputs :: "'a vec"
  outputs :: "'a vec"
  residuals :: "'a vec"
  nruns :: nat

text \<open>
  Modelled from the spec: the model's evaluation entry point. The methods
  \<open>System.run_solve_nonlinear\<close> and \<open>System.run_apply_nonlinear\<close> are not among the
  sources. The spec (External interfaces) gives \<open>evaluate(mode) -> None\<close>, which
  ``mutates a shared result-vector view in place'', and may raise. An evaluation is
  therefore a function of the system's state that yields the new contents of the
  observed result vector and the exception it raises, if any. \<open>run_solve_nonlinear\<close>
  writes the outputs, \<open>run_apply_nonlinear\<close> the residuals; the field \<open>nruns\<close> of the
  system counts the invocations.
\<close>

type_synonym 'a evaluate = "'a system \<Rightarrow> 'a vec \<times> py_error option"

definition run_solve_nonlinear :: "'a evaluate \<Rightarrow> 'a system \<Rightarrow> 'a system \<times> py_error option" where
  "run_solve_nonlinear ev s =
     (case ev s of (v, e) \<Rightarrow> (s\<lparr>outputs := v, nruns := nruns s + 1\<rparr>, e))"

definition run_apply_nonlinear :: "'a evaluate \<Rightarrow> 'a system \<Rightarrow> 'a system \<times> py_error option" where
  "run_apply_nonlinear ev s =
     (case ev s of (v, e) \<Rightarrow> (s\<lparr>residuals := v, nruns := nruns s + 1\<rparr>, e))"

subsection \<open>\<open>_run_point\<close>\<close>

text \<open>
  \<^verbatim>\<open>
  def _run_point(self, system, input_deltas, cache, results, deriv_type='partial'):
      inputs = system._inputs
      outputs = system._outputs

      if deriv_type == 'total':
          run_model = system.run_solve_nonlinear
          results_vec = outputs
      elif deriv_type == 'partial':
          run_model = system.run_apply_nonlinear
          results_vec = system._residuals
      else:
          raise ValueError('deriv_type must be one of "total" or "partial"')

      for in_name, idxs, delta in input_deltas:
          if in_name in outputs._views_flat:
              outputs._views_flat[in_name][idxs] += delta
          else:
              inputs._views_flat[in_name][idxs] += delta

      results_vec.get_data(cache)
      run_model()

      results.set_vec(results_vec)
      results_vec.set_data(cache)

      for in_name, idxs, delta in input_deltas:
          if in_name in outputs._views_flat:
              outputs._views_flat[in_name][idxs] -= delta
          else:
              inputs._views_flat[in_name][idxs] -= delta

      return results
  \<close>
  \<open>a[idxs] += delta\<close> with an index array reads \<open>a[idxs]\<close>, adds \<open>delta\<close> to every
  element read, and writes the sums back at \<open>idxs\<close> one after the other, so that an
  index that occurs twice is shifted once. An index beyond the array raises
  \<open>IndexError\<close> in the read, before anything is written. The indices are natural
  numbers and \<open>delta\<close> is a scalar.
\<close>

definition fancy_inplace :: "('a \<Rightarrow> 'a \<Rightarrow> 'a) \<Rightarrow> 'a list \<Rightarrow> nat list \<Rightarrow> 'a \<Rightarrow> py_error + 'a list" where
  "fancy_inplace f a idxs delta =
     (if \<forall>i \<in> set idxs. i < length a
      then Inr (scatter (zip idxs (map (\<lambda>i. f (a ! i) delta) idxs)) a)
      else Inl IndexError)"

text \<open>
  The two loops over \<open>input_deltas\<close>, with \<open>f\<close> the \<open>+=\<close> of the element type in the
  first and its \<open>-=\<close> in the second. A name that is in neither vector raises \<open>KeyError\<close>. The
  loop returns the inputs and outputs as they are when it ends or raises.
\<close>

fun shift_deltas ::
  "('a \<Rightarrow> 'a \<Rightarrow> 'a) \<Rightarrow> 'a vec \<times> 'a vec \<Rightarrow> (string \<times> nat list \<times> 'a) list
     \<Rightarrow> ('a vec \<times> 'a vec) \<times> py_error option" where
  "shift_deltas f (ins, outs) [] = ((ins, outs), None)"
| "shift_deltas f (ins, outs) ((in_name, idxs, delta) # rest) =
     (case outs in_name of
        Some a \<Rightarrow>
          (case fancy_inplace f a idxs delta of
             Inl e \<Rightarrow> ((ins, outs), Some e)
           | Inr a' \<Rightarrow> shift_deltas f (ins, outs(in_name \<mapsto> a')) rest)
      | None \<Rightarrow>
          (case ins in_name of
             None \<Rightarrow> ((ins, outs), Some KeyError)
           | Some a \<Rightarrow>
               (case fancy_inplace f a idxs delta of
                  Inl e \<Rightarrow> ((ins, outs), Some e)
                | Inr a' \<Rightarrow> shift_deltas f (ins(in_name \<mapsto> a'), outs) rest)))"

text \<open>
  What a call leaves behind: the exception it raised, if any (\<open>None\<close> when it returned
  \<open>results\<close>), the system, and the two buffers of the caller, which the call writes in
  place.
\<close>

record 'a run_point_result =
  raised :: "py_error option"
  system_after :: "'a system"
  cache_after :: "'a vec"
  results_after :: "'a vec"

definition run_point ::
  "('a \<Rightarrow> 'a \<Rightarrow> 'a) \<Rightarrow> ('a \<Rightarrow> 'a \<Rightarrow> 'a) \<Rightarrow> 'a evaluate \<Rightarrow> 'a evaluate \<Rightarrow> 'a system
     \<Rightarrow> (string \<times> nat list \<times> 'a) list \<Rightarrow> 'a vec \<Rightarrow> 'a vec \<Rightarrow> string \<Rightarrow> 'a run_point_result" where
  "run_point add sub solve apply_nl system input_deltas cache results deriv_type =
     (if deriv_type \<noteq> ''total'' \<and> deriv_type \<noteq> ''partial''
      then \<lparr>raised = Some ValueError, system_after = system,
            cache_after = cache, results_after = results\<rparr>
      else
        let total = (deriv_type = ''total'');
            run_model = (if total then run_solve_nonlinear solve else run_apply_nonlinear apply_nl);
            get_results_vec = (if total then outputs else residuals);
            set_results_vec = (\<lambda>v s. if total then s\<lparr>outputs := v\<rparr> else s\<lparr>residuals := v\<rparr>)
        in
        case shift_deltas add (inputs system, outputs system) input_deltas of
          ((ins1, outs1), Some e) \<Rightarrow>
            \<lparr>raised = Some e, system_after = system\<lparr>inputs := ins1, outputs := outs1\<rparr>,
             cache_after = cache, results_after = results\<rparr>
        | ((ins1, outs1), None) \<Rightarrow>
            let s1 = system\<lparr>inputs := ins1, outputs := outs1\<rparr>;
                cache1 = get_results_vec s1
            in case run_model s1 of
                 (s2, Some e) \<Rightarrow>
                   \<lparr>raised = Some e, system_after = s2,
                    cache_after = cache1, results_after = results\<rparr>
               | (s2, None) \<Rightarrow>
                   let results1 = get_results_vec s2;
                       s3 = set_results_vec cache1 s2
                   in case shift_deltas sub (inputs s3, outputs s3) input_deltas of
                        ((ins4, outs4), e) \<Rightarrow>
                          \<lparr>raised = e, system_after = s3\<lparr>inputs := ins4, outputs := outs4\<rparr>,
                           cache_after = cache1, results_after = results1\<rparr>)"

text \<open>
  The effect of one pass of a loop without its checks, and the check itself; they
  serve the proofs only.
\<close>

definition shl :: "('a \<Rightarrow> 'a \<Rightarrow> 'a) \<Rightarrow> nat list \<Rightarrow> 'a \<Rightarrow> 'a list \<Rightarrow> 'a list" where
  "shl f idxs delta a = map (\<lambda>j. if j \<in> set idxs then f (a ! j) delta else a ! j) [0..<length a]"

fun upd :: "('a \<Rightarrow> 'a \<Rightarrow> 'a) \<Rightarrow> string \<times> nat list \<times> 'a \<Rightarrow> 'a vec \<times> 'a vec \<Rightarrow> 'a vec \<times> 'a vec" where
  "upd f (in_name, idxs, delta) (ins, outs) =
     (case outs in_name of
        Some a \<Rightarrow> (ins, outs(in_name \<mapsto> shl f idxs delta a))
      | None \<Rightarrow> (case ins in_name of
                   None \<Rightarrow> (ins, outs)
                 | Some a \<Rightarrow> (ins(in_name \<mapsto> shl f idxs delta a), outs)))"

fun valid :: "'a vec \<times> 'a vec \<Rightarrow> string \<times> nat list \<times> 'a \<Rightarrow> bool" where
  "valid (ins, outs) (in_name, idxs, delta) =
     (case outs in_name of
        Some a \<Rightarrow> (\<forall>i \<in> set idxs. i < length a)
      | None \<Rightarrow> (case ins in_name of None \<Rightarrow> False | Some a \<Rightarrow> (\<forall>i \<in> set idxs. i < length a)))"

text \<open>
  The state of the vectors after a loop that ran to its end, entry by entry.
  \<open>deltas_at ds name j\<close> lists, in the order of \<open>ds\<close>, the deltas of the triples that
  name the variable \<open>name\<close> and whose index array holds \<open>j\<close>; \<open>shifted f ds name a\<close>
  applies \<open>f\<close> with each of them in turn to entry \<open>j\<close> of \<open>a\<close>. A name that is in the
  outputs is shifted there, any other name in the inputs. \<open>there_and_back\<close> is an
  entry after both loops: every delta is added, then every delta is subtracted.
\<close>

definition deltas_at :: "(string \<times> nat list \<times> 'a) list \<Rightarrow> string \<Rightarrow> nat \<Rightarrow> 'a list" where
  "deltas_at ds name j = map (\<lambda>t. snd (snd t)) (filter (\<lambda>t. fst t = name \<and> j \<in> set (fst (snd t))) ds)"

definition shifted :: "('a \<Rightarrow> 'a \<Rightarrow> 'a) \<Rightarrow> (string \<times> nat list \<times> 'a) list \<Rightarrow> string \<Rightarrow> 'a list \<Rightarrow> 'a list" where
  "shifted f ds name a = map (\<lambda>j. foldl f (a ! j) (deltas_at ds name j)) [0..<length a]"

definition shift_outputs :: "('a \<Rightarrow> 'a \<Rightarrow> 'a) \<Rightarrow> (string \<times> nat list \<times> 'a) list \<Rightarrow> 'a vec \<Rightarrow> 'a vec" where
  "shift_outputs f ds outs = (\<lambda>name. map_option (shifted f ds name) (outs name))"

definition shift_inputs ::
  "('a \<Rightarrow> 'a \<Rightarrow> 'a) \<Rightarrow> (string \<times> nat list \<times> 'a) list \<Rightarrow> 'a vec \<Rightarrow> 'a vec \<Rightarrow> 'a vec" where
  "shift_inputs f ds outs ins =
     (\<lambda>name. if outs name = None then map_option (shifted f ds name) (ins name) else ins name)"

definition there_and_back ::
  "('a \<Rightarrow> 'a \<Rightarrow> 'a) \<Rightarrow> ('a \<Rightarrow> 'a \<Rightarrow> 'a) \<Rightarrow> (string \<times> nat list \<times> 'a) list \<Rightarrow> string \<Rightarrow> 'a list \<Rightarrow> 'a list" where
  "there_and_back add sub ds name a =
     map (\<lambda>j. foldl sub (foldl add (a ! j) (deltas_at ds name j)) (deltas_at ds name j))
       [0..<length a]"

text \<open>
  A system of one component with the input \<open>x\<close> and the output \<open>y\<close>, an evaluation
  that raises, one that leaves the residuals as they are, and one that computes them
  from the inputs and outputs it finds.
\<close>

definition example_system :: "real system" where
  "example_system =
     \<lparr>inputs = [''x'' \<mapsto> [0, 5]], outputs = [''y'' \<mapsto> [3]],
      residuals = [''y'' \<mapsto> [0]], nruns = 0\<rparr>"

definition failing_model :: "real evaluate" where
  "failing_model s = (residuals s, Some (ModelError 0))"

definition idle_model :: "real evaluate" where
  "idle_model s = (residuals s, None)"

definition tenth_system :: "real system" where
  "tenth_system =
     \<lparr>inputs = [''x'' \<mapsto> [3602879701896397 / 36028797018963968]], outputs = [''y'' \<mapsto> [0]],
      residuals = [''y'' \<mapsto> [0]], nruns = 0\<rparr>"

definition wide_system :: "real system" where
  "wide_system =
     \<lparr>inputs = [''x'' \<mapsto> [0, 5, 7], ''z'' \<mapsto> [1]], outputs = [''y'' \<mapsto> [3, 4]],
      residuals = [''y'' \<mapsto> [0, 0]], nruns = 0\<rparr>"

definition wide_deltas :: "(string \<times> nat list \<times> real) list" where
  "wide_deltas = [(''x'', [0, 2, 0], 1), (''y'', [1], 2), (''x'', [2], 4)]"

definition summing_model :: "real evaluate" where
  "summing_model s =
     (case (inputs s ''x'', outputs s ''y'') of
        (Some x, Some y) \<Rightarrow> ([''y'' \<mapsto> [x ! 0 + x ! 1, x ! 2 + y ! 1]], None)
      | _ \<Rightarrow> (residuals s, Some (ModelError 1)))"
section \<open>\<open>jacobians/jacobian.py\<close>\<close>

subsection \<open>Sub-Jacobians and their metadata\<close>

text \<open>
  The keys of \<open>Jacobian._subjacs_info\<close> are pairs \<open>(of, wrt)\<close> of absolute names. The
  value of a sub-Jacobian is a numpy array or a scipy sparse matrix; of the latter the
  model keeps the shape, the coordinates of the stored entries and their values
  (\<open>.data\<close>). The metadata of a sub-Jacobian is a dict with the keys \<open>'rows'\<close>, \<open>'cols'\<close>,
  \<open>'val'\<close> and \<open>'dependent'\<close> and, once a coloring has been computed, \<open>'sparsity'\<close>, a
  triple \<open>(rows, cols, shape)\<close> with a two-dimensional shape. \<open>'val'\<close> is an allocated
  value (the data model of the spec); an absent \<open>'sparsity'\<close> key is \<open>None\<close>.
\<close>

type_synonym key = "string \<times> string"

record spmatrix =
  sp_shape :: "nat \<times> nat"
  sp_coords :: "(nat \<times> nat) list"
  sp_data :: "real list"

datatype subjac_val = Nd ndarray | Sp spmatrix

record subjac_meta =
  rows :: "nat list option"
  cols :: "nat list option"
  val :: subjac_val
  dependent :: bool
  sparsity :: "(nat list \<times> nat list \<times> nat \<times> nat) option"

text \<open>
  What a Jacobian reads from the system that owns it; \<open>System\<close> is not among the
  sources, so these are parameters: the resolver's \<open>any2abs_key\<close>, which yields
  \<open>None\<close> for a name pair it does not know, the sizes in \<open>_var_allprocs_abs2meta\<close>, and
  the triples \<open>(name, start, end)\<close> that \<open>_jac_wrt_iter\<close> and \<open>_jac_of_iter\<close> yield
  (their further components are not used).
\<close>

record jac_system =
  any2abs_key :: "key \<Rightarrow> key option"
  input_size :: "string \<rightharpoonup> nat"
  output_size :: "string \<rightharpoonup> nat"
  jac_wrt_iter :: "(string \<times> nat \<times> nat) list"
  jac_of_iter :: "(string \<times> nat \<times> nat) list"

text \<open>
  \<open>_col_var_offset\<close>, \<open>_col_varnames\<close> and \<open>_col2name_ind\<close> are \<open>None\<close> until
  \<open>_setup_index_maps\<close> sets them; \<open>index_maps = None\<close> stands for
  \<open>self._col_varnames is None\<close>. The offsets are a dict, which keeps the order in which
  its keys were first inserted. \<open>_col2name_ind\<close> comes from \<open>np.empty\<close>: an entry is
  \<open>None\<close> until it is written.
\<close>

record index_maps =
  col_var_offset :: "(string \<times> nat) list"
  col_varnames :: "string list"
  col2name_ind :: "nat option list option"

record jacobian =
  subjacs_info :: "key \<rightharpoonup> subjac_meta"
  abs_keys :: "key \<rightharpoonup> key"
  index_maps :: "index_maps option"

subsection \<open>\<open>_get_abs_key\<close>, \<open>_abs_key2shape\<close>, \<open>__contains__\<close>, \<open>__getitem__\<close>\<close>

text \<open>
  \<^verbatim>\<open>
  def _get_abs_key(self, key):
      try:
          return self._abs_keys[key]
      except KeyError:
          abskey = self._system()._resolver.any2abs_key(key)
          if abskey is not None:
              self._abs_keys[key] = abskey
          return abskey

  def _abs_key2shape(self, abs_key):
      abs2meta = self._system()._var_allprocs_abs2meta
      of, wrt = abs_key
      if wrt in abs2meta['input']:
          sz = abs2meta['input'][wrt]['size']
      else:
          sz = abs2meta['output'][wrt]['size']
      return (abs2meta['output'][of]['size'], sz)

  def __contains__(self, key):
      return self._get_abs_key(key) in self._subjacs_info

  def __getitem__(self, key):
      try:
          return self._subjacs_info[self._get_abs_key(key)]['val']
      except KeyError:
          msg = '{}: Variable name pair ("{}", "{}") not found.'
          raise KeyError(msg.format(self.msginfo, key[0], key[1]))
  \<close>
  Every method returns the Jacobian as it leaves it next to its result, since
  \<open>_get_abs_key\<close> fills the cache \<open>_abs_keys\<close>.
\<close>

definition get_abs_key :: "jac_system \<Rightarrow> jacobian \<Rightarrow> key \<Rightarrow> key option \<times> jacobian" where
  "get_abs_key system self key =
     (case abs_keys self key of
        Some abskey \<Rightarrow> (Some abskey, self)
      | None \<Rightarrow>
          (case any2abs_key system key of
             None \<Rightarrow> (None, self)
           | Some abskey \<Rightarrow> (Some abskey, self\<lparr>abs_keys := (abs_keys self)(key \<mapsto> abskey)\<rparr>)))"

definition abs_key2shape :: "jac_system \<Rightarrow> key \<Rightarrow> py_error + nat \<times> nat" where
  "abs_key2shape system abs_key =
     (case abs_key of (of_name, wrt) \<Rightarrow>
        (case (case input_size system wrt of
                 Some sz \<Rightarrow> Inr sz
               | None \<Rightarrow> (case output_size system wrt of None \<Rightarrow> Inl KeyError | Some sz \<Rightarrow> Inr sz)) of
           Inl e \<Rightarrow> Inl e
         | Inr sz \<Rightarrow>
             (case output_size system of_name of
                None \<Rightarrow> Inl KeyError
              | Some osz \<Rightarrow> Inr (osz, sz))))"

definition contains :: "jac_system \<Rightarrow> jacobian \<Rightarrow> key \<Rightarrow> bool \<times> jacobian" where
  "contains system self key =
     (case get_abs_key system self key of
        (None, self') \<Rightarrow> (False, self')
      | (Some abskey, self') \<Rightarrow> (abskey \<in> dom (subjacs_info self'), self'))"

definition getitem :: "jac_system \<Rightarrow> jacobian \<Rightarrow> key \<Rightarrow> (py_error + subjac_val) \<times> jacobian" where
  "getitem system self key =
     (case get_abs_key system self key of
        (None, self') \<Rightarrow> (Inl KeyError, self')
      | (Some abskey, self') \<Rightarrow>
          (case subjacs_info self' abskey of
             None \<Rightarrow> (Inl KeyError, self')
           | Some meta \<Rightarrow> (Inr (val meta), self')))"

subsection \<open>\<open>__setitem__\<close>\<close>

text \<open>
  \<^verbatim>\<open>
  def __setitem__(self, key, subjac):
      abs_key = self._get_abs_key(key)
      if abs_key is None:
          msg = '{}: Variable name pair ("{}", "{}") not found.'
          raise KeyError(msg.format(self.msginfo, key[0], key[1]))

      # You can only set declared subjacobians.
      if abs_key not in self._subjacs_info:
          msg = '{}: Variable name pair ("{}", "{}") must first be declared.'
          raise KeyError(msg.format(self.msginfo, key[0], key[1]))

      subjacs_info = self._subjacs_info[abs_key]

      if issparse(subjac):
          subjacs_info['val'] = subjac
      else:
          rows = subjacs_info['rows']

          if rows is None:
              # Dense subjac
              subjac = np.atleast_2d(subjac)
              if subjac.shape != (1, 1):
                  shape = self._abs_key2shape(abs_key)
                  subjac = subjac.reshape(shape)

              subjacs_info['val'][:] = subjac

          else:
              try:
                  subjacs_info['val'][:] = subjac
              except ValueError:
                  subjac = np.atleast_1d(subjac)
                  msg = '{}: Sub-jacobian for key {} has the wrong shape ({}), expected ({}).'
                  raise ValueError(msg.format(self.msginfo, abs_key,
                                              subjac.shape, rows.shape))
  \<close>
  The value that is set is a scipy matrix (\<open>issparse\<close>) or something numpy turns into
  an array. The slice assignment into a stored array is \<open>assign_all\<close>; into a stored
  scipy matrix it is not modelled. numpy checks the shapes before it writes, so an
  assignment that raises leaves the stored value as it was.
\<close>

definition assign_val :: "subjac_val \<Rightarrow> ndarray \<Rightarrow> py_error + subjac_val" where
  "assign_val v src =
     (case v of
        Nd dst \<Rightarrow> (case assign_all dst src of Inl e \<Rightarrow> Inl e | Inr a \<Rightarrow> Inr (Nd a))
      | Sp m \<Rightarrow> Inl NotModelled)"

definition setitem :: "jac_system \<Rightarrow> jacobian \<Rightarrow> key \<Rightarrow> subjac_val \<Rightarrow> py_error option \<times> jacobian" where
  "setitem system self key subjac =
     (case get_abs_key system self key of
        (None, self') \<Rightarrow> (Some KeyError, self')
      | (Some abs_key, self') \<Rightarrow>
          (case subjacs_info self' abs_key of
             None \<Rightarrow> (Some KeyError, self')
           | Some info \<Rightarrow>
               (case subjac of
                  Sp m \<Rightarrow>
                    (None, self'\<lparr>subjacs_info := (subjacs_info self')(abs_key \<mapsto> info\<lparr>val := Sp m\<rparr>)\<rparr>)
                | Nd a \<Rightarrow>
                    (case rows info of
                       None \<Rightarrow>
                         (let a2 = atleast_2d a
                          in case (if shape a2 \<noteq> [1, 1]
                                   then (case abs_key2shape system abs_key of
                                           Inl e \<Rightarrow> Inl e
                                         | Inr (m, n) \<Rightarrow> reshape a2 [m, n])
                                   else Inr a2) of
                               Inl e \<Rightarrow> (Some e, self')
                             | Inr a3 \<Rightarrow>
                                 (case assign_val (val info) a3 of
                                    Inl e \<Rightarrow> (Some e, self')
                                  | Inr v \<Rightarrow>
                                      (None, self'\<lparr>subjacs_info :=
                                         (subjacs_info self')(abs_key \<mapsto> info\<lparr>val := v\<rparr>)\<rparr>)))
                     | Some rs \<Rightarrow>
                         (case assign_val (val info) a of
                            Inl e \<Rightarrow> (Some e, self')
                          | Inr v \<Rightarrow>
                              (None, self'\<lparr>subjacs_info :=
                                 (subjacs_info self')(abs_key \<mapsto> info\<lparr>val := v\<rparr>)\<rparr>))))))"

subsection \<open>\<open>_randomize_subjac\<close>\<close>

text \<open>
  \<^verbatim>\<open>
  def _randomize_subjac(self, subjac, key):
      if isinstance(subjac, sparse_types):  # sparse
          sparse = subjac.copy()
          sparse.data = self._randgen.random(sparse.data.size)
          sparse.data += 1.0
          return sparse

      # if a subsystem has computed a dynamic partial or semi-total coloring,
      # we use that sparsity information to set the sparsity of the randomized
      # subjac.  Otherwise all subjacs that didn't have sparsity declared by the
      # user will appear completely dense, which will lead to a total jacobian that
      # is more dense than it should be, causing any total coloring that we compute
      # to be overly conservative.
      subjac_info = self._subjacs_info[key]
      if 'sparsity' in subjac_info:
          rows, cols, shape = subjac_info['sparsity']
          r = np.zeros(shape)
          val = self._randgen.random(len(rows))
          val += 1.0
          r[rows, cols] = val
      else:
          r = self._randgen.random(subjac.shape)
          r += 1.0

      return r
  \<close>
  The random generator (\<open>coloring_randgen\<close> of the problem) is a stream of draws:
  \<open>random(n)\<close> yields the next \<open>n\<close> of them and moves on. That every draw lies in
  \<open>[0, 1)\<close> is a hypothesis of the theorems, not a part of the model. \<open>+= 1.0\<close> is
  the addition of doubles, \<open>f64_add\<close>, which rounds: the largest draw, \<open>1 - 2 ^ -53\<close>,
  gives 2. \<open>sparse_types\<close>
  (from \<open>openmdao.matrices.matrix\<close>, not among the sources) is taken to hold every
  scipy matrix type of the model. \<open>r[rows, cols] = val\<close> pairs the two index arrays, of
  equal length or one of them of length 1, and raises \<open>IndexError\<close> otherwise or when
  a coordinate is outside \<open>r\<close>.
\<close>

type_synonym randgen = "nat \<Rightarrow> real"

definition random :: "randgen \<Rightarrow> nat \<Rightarrow> real list \<times> randgen" where
  "random g n = (map g [0..<n], \<lambda>i. g (i + n))"

definition index_pairs :: "nat list \<Rightarrow> nat list \<Rightarrow> py_error + (nat \<times> nat) list" where
  "index_pairs rs cs =
     (if length rs = length cs then Inr (zip rs cs)
      else if length rs = 1 then Inr (map (\<lambda>c. (rs ! 0, c)) cs)
      else if length cs = 1 then Inr (map (\<lambda>r. (r, cs ! 0)) rs)
      else Inl IndexError)"

definition set_coords ::
  "nat \<times> nat \<Rightarrow> real list \<Rightarrow> nat list \<Rightarrow> nat list \<Rightarrow> real list \<Rightarrow> py_error + real list" where
  "set_coords shp d rs cs vs =
     (case shp of (m, n) \<Rightarrow>
        (case index_pairs rs cs of
           Inl e \<Rightarrow> Inl e
         | Inr ps \<Rightarrow>
             if \<not> (\<forall>(r, c) \<in> set ps. r < m \<and> c < n) then Inl IndexError
             else if length vs = length ps
             then Inr (scatter (zip (map (\<lambda>(r, c). r * n + c) ps) vs) d)
             else if length vs = 1
             then Inr (scatter (zip (map (\<lambda>(r, c). r * n + c) ps) (replicate (length ps) (vs ! 0))) d)
             else Inl ValueError))"

definition randomize_subjac ::
  "jacobian \<Rightarrow> randgen \<Rightarrow> subjac_val \<Rightarrow> key \<Rightarrow> (py_error + subjac_val) \<times> randgen" where
  "randomize_subjac self g subjac key =
     (case subjac of
        Sp sparse \<Rightarrow>
          (case random g (length (sp_data sparse)) of
             (r, g') \<Rightarrow> (Inr (Sp (sparse\<lparr>sp_data := map (\<lambda>x. f64_add x 1) r\<rparr>)), g'))
      | Nd a \<Rightarrow>
          (case subjacs_info self key of
             None \<Rightarrow> (Inl KeyError, g)
           | Some subjac_info \<Rightarrow>
               (case sparsity subjac_info of
                  Some (rs, cs, m, n) \<Rightarrow>
                    (case random g (length rs) of
                       (v, g') \<Rightarrow>
                         (case set_coords (m, n) (replicate (m * n) 0) rs cs (map (\<lambda>x. f64_add x 1) v) of
                            Inl e \<Rightarrow> (Inl e, g')
                          | Inr d \<Rightarrow> (Inr (Nd \<lparr>shape = [m, n], data = d\<rparr>), g')))
                | None \<Rightarrow>
                    (case random g (prod_list (shape a)) of
                       (r, g') \<Rightarrow>
                         (Inr (Nd \<lparr>shape = shape a, data = map (\<lambda>x. f64_add x 1) r\<rparr>), g')))))"

subsection \<open>\<open>_setup_index_maps\<close> and \<open>set_col\<close>\<close>

text \<open>
  \<^verbatim>\<open>
  def _setup_index_maps(self, system):
      self._col_var_offset = {}
      col_var_info = []
      for wrt, start, end, _, _, _ in system._jac_wrt_iter():
          self._col_var_offset[wrt] = start
          col_var_info.append(end)

      self._col_varnames = list(self._col_var_offset)
      self._col2name_ind = np.empty(end, dtype=INT_DTYPE)  # jac col to var id
      start = 0
      for i, end in enumerate(col_var_info):
          self._col2name_ind[start:end] = i
          start = end

  def set_col(self, system, icol, column):
      if self._col_varnames is None:
          self._setup_index_maps(system)

      wrt = self._col_varnames[self._col2name_ind[icol]]
      loc_idx = icol - self._col_var_offset[wrt]  # local col index into subjacs

      for of, start, end, _, _ in system._jac_of_iter():
          key = (of, wrt)
          if key in self._subjacs_info:
              subjac = self._subjacs_info[key]
              if subjac['cols'] is None:  # dense
                  subjac['val'][:, loc_idx] = column[start:end]
              else:  # our COO format
                  match_inds = np.nonzero(subjac['cols'] == loc_idx)[0]
                  if match_inds.size > 0:
                      subjac['val'][match_inds] = column[start:end][subjac['rows'][match_inds]]
  \<close>
  With no variable to iterate over, \<open>end\<close> is unbound when \<open>np.empty(end)\<close> is reached.
  The entries of \<open>_col2name_ind\<close> are indices below the number of variables, so the
  width of \<open>INT_DTYPE\<close> plays no part. \<open>icol\<close> is a Python integer; a negative one
  indexes \<open>_col2name_ind\<close> from its end and stays negative in \<open>loc_idx\<close>.
\<close>

definition dict_set :: "'k \<Rightarrow> 'v \<Rightarrow> ('k \<times> 'v) list \<Rightarrow> ('k \<times> 'v) list" where
  "dict_set k v d =
     (if k \<in> fst ` set d then map (\<lambda>(k', v'). if k' = k then (k', v) else (k', v')) d
      else d @ [(k, v)])"

definition fill_slice :: "nat \<Rightarrow> nat \<Rightarrow> 'a \<Rightarrow> 'a list \<Rightarrow> 'a list" where
  "fill_slice start stop x xs = map (\<lambda>j. if start \<le> j \<and> j < stop then x else xs ! j) [0..<length xs]"

fun fill_ids :: "nat \<Rightarrow> nat \<Rightarrow> nat list \<Rightarrow> nat option list \<Rightarrow> nat option list" where
  "fill_ids i start [] c = c"
| "fill_ids i start (stop # ends) c = fill_ids (Suc i) stop ends (fill_slice start stop (Some i) c)"

definition setup_index_maps :: "jac_system \<Rightarrow> jacobian \<Rightarrow> py_error option \<times> jacobian" where
  "setup_index_maps system self =
     (let offs = fold (\<lambda>(wrt, start, stop) d. dict_set wrt start d) (jac_wrt_iter system) [];
          col_var_info = map (\<lambda>(wrt, start, stop). stop) (jac_wrt_iter system)
      in if jac_wrt_iter system = []
         then (Some UnboundLocalError,
               self\<lparr>index_maps := Some \<lparr>col_var_offset = offs, col_varnames = map fst offs,
                                       col2name_ind = None\<rparr>\<rparr>)
         else (None,
               self\<lparr>index_maps := Some
                 \<lparr>col_var_offset = offs, col_varnames = map fst offs,
                  col2name_ind =
                    Some (fill_ids 0 0 col_var_info (replicate (last col_var_info) None))\<rparr>\<rparr>))"





subsection \<open>Well-formed inputs and the effect of \<open>set_col\<close> on one block\<close>

text \<open>
  The column ranges that \<open>_jac_wrt_iter\<close> yields tile the columns of the Jacobian:
  the first starts at 0 and each one starts where the one before it ends.
\<close>

fun contiguous_from :: "nat \<Rightarrow> (string \<times> nat \<times> nat) list \<Rightarrow> bool" where
  "contiguous_from s [] = True"
| "contiguous_from s ((name, start, stop) # rest) =
     (start = s \<and> start \<le> stop \<and> contiguous_from stop rest)"



subsection \<open>Examples\<close>

text \<open>
  A system with the inputs \<open>x\<close> (columns 0 and 1) and \<open>z\<close> (column 2) and the outputs
  \<open>y\<close> (rows 0 and 1) and \<open>g\<close> (row 2); a Jacobian with a dense block, two COO blocks
  and the pair \<open>(g, z)\<close> not declared; a generator whose draws are all \<open>1/2\<close>; a
  Jacobian whose blocks record a sparsity.
\<close>

definition ex_sys :: jac_system where
  "ex_sys = \<lparr>any2abs_key = Some, input_size = [''x'' \<mapsto> 2, ''z'' \<mapsto> 1], output_size = [''y'' \<mapsto> 2, ''g'' \<mapsto> 1],
     jac_wrt_iter = [(''x'', 0, 2), (''z'', 2, 3)], jac_of_iter = [(''y'', 0, 2), (''g'', 2, 3)]\<rparr>"

definition ex_jac :: jacobian where
  "ex_jac = \<lparr>subjacs_info =
      [(''y'', ''x'') \<mapsto> \<lparr>rows = None, cols = None, val = Nd \<lparr>shape = [2, 2], data = [0, 0, 0, 0]\<rparr>,
                           dependent = True, sparsity = None\<rparr>,
       (''g'', ''x'') \<mapsto> \<lparr>rows = Some [0, 0], cols = Some [0, 1], val = Nd \<lparr>shape = [2], data = [0, 0]\<rparr>,
                           dependent = True, sparsity = None\<rparr>,
       (''y'', ''z'') \<mapsto> \<lparr>rows = Some [1], cols = Some [0], val = Nd \<lparr>shape = [1], data = [0]\<rparr>,
                           dependent = True, sparsity = None\<rparr>],
     abs_keys = Map.empty, index_maps = None\<rparr>"

definition half_gen :: randgen where
  "half_gen = (\<lambda>i. 1 / 2)"

definition largest_gen :: randgen where
  "largest_gen = (\<lambda>i. 9007199254740991 / 9007199254740992)"

definition ex_sp :: spmatrix where
  "ex_sp = \<lparr>sp_shape = (2, 2), sp_coords = [(0, 0), (1, 1)], sp_data = [4, 5]\<rparr>"

definition ex_jac_sparsity :: jacobian where
  "ex_jac_sparsity = \<lparr>subjacs_info =
      [(''y'', ''x'') \<mapsto> \<lparr>rows = None, cols = None, val = Sp ex_sp,
                           dependent = True, sparsity = Some ([0], [0], 2, 2)\<rparr>,
       (''y'', ''z'') \<mapsto> \<lparr>rows = None, cols = None, val = Nd \<lparr>shape = [2, 1], data = [0, 0]\<rparr>,
                           dependent = True, sparsity = Some ([1], [0], 2, 1)\<rparr>,
       (''g'', ''z'') \<mapsto> \<lparr>rows = None, cols = None, val = Nd \<lparr>shape = [1, 1], data = [0]\<rparr>,
                           dependent = True, sparsity = None\<rparr>],
     abs_keys = Map.empty, index_maps = None\<rparr>"

section \<open>\<open>vectors/petsc_vector.py\<close>\<close>

subsection \<open>One process\<close>

text \<open>
  \<^verbatim>\<open>
  def _init_dup_inds(self, system):
      if system.comm.size > 1:
          # Here, we find the indices that are not locally owned so that we can
          # temporarilly zero them out for the norm calculation.
          dup_inds = []
          abs2meta = system._var_allprocs_abs2meta[self._iotype]
          for name, start, stop in self.ranges():
              owning_rank = system._owning_rank[name]
              if not abs2meta[name]['distributed'] and owning_rank != system.comm.rank:
                  dup_inds.extend(range(start, stop))

          self._dup_inds = np.array(dup_inds, dtype=INT_DTYPE)
          if len(dup_inds) > 0:
              self._dup_scratch = np.empty(stop)
      else:
          self._dup_inds = np.array([], dtype=INT_DTYPE)

      return self._dup_inds

  def _get_nodup(self):
      if self._dup_inds.size > 0:
          self._dup_scratch[:] = self.asarray()
          self._dup_scratch[self._dup_inds] = 0.0
          return self._dup_scratch

      return self._get_data()
  \<close>
  From its system a vector reads the size of the communicator, the rank of the
  process, \<open>_owning_rank\<close> and the \<open>'distributed'\<close> flag of a variable; \<open>ranges()\<close> of
  the base class, which is not among the sources, yields the triples \<open>(name, start,
  stop)\<close> of the variables in the data array, kept here with the vector. The vector
  is real. \<open>_initialize_data\<close> calls \<open>_init_dup_inds\<close>, so a constructed vector has
  its \<open>_dup_inds\<close>. \<open>np.empty(stop)\<close> leaves the scratch array unspecified (zeros
  in the model); \<open>_get_nodup\<close> overwrites all of it before it is read. The duplicate
  indices are positions in the data array, so the width of \<open>INT_DTYPE\<close> plays no
  part.
\<close>

record mpi_system =
  comm_size :: nat
  comm_rank :: nat
  owning_rank :: "string \<rightharpoonup> nat"
  var_distributed :: "string \<rightharpoonup> bool"

record PETScVector =
  vec_data :: "real list"
  vec_ranges :: "(string \<times> nat \<times> nat) list"
  dup_inds :: "nat list"
  dup_scratch :: "real list option"

fun collect_dups :: "mpi_system \<Rightarrow> (string \<times> nat \<times> nat) list \<Rightarrow> py_error + nat list" where
  "collect_dups system [] = Inr []"
| "collect_dups system ((name, start, stop) # rest) =
     (case owning_rank system name of
        None \<Rightarrow> Inl KeyError
      | Some owner \<Rightarrow>
          (case var_distributed system name of
             None \<Rightarrow> Inl KeyError
           | Some distributed \<Rightarrow>
               (case collect_dups system rest of
                  Inl e \<Rightarrow> Inl e
                | Inr dups \<Rightarrow>
                    Inr ((if \<not> distributed \<and> owner \<noteq> comm_rank system then [start..<stop] else [])
                         @ dups))))"

definition init_dup_inds :: "mpi_system \<Rightarrow> PETScVector \<Rightarrow> py_error + PETScVector" where
  "init_dup_inds system self =
     (if comm_size system > 1
      then (case collect_dups system (vec_ranges self) of
              Inl e \<Rightarrow> Inl e
            | Inr dups \<Rightarrow>
                Inr (if length dups > 0
                     then self\<lparr>dup_inds := dups,
                               dup_scratch := Some (replicate (snd (snd (last (vec_ranges self)))) 0)\<rparr>
                     else self\<lparr>dup_inds := dups\<rparr>))
      else Inr (self\<lparr>dup_inds := []\<rparr>))"

definition new_vector :: "real list \<Rightarrow> (string \<times> nat \<times> nat) list \<Rightarrow> PETScVector" where
  "new_vector d rngs = \<lparr>vec_data = d, vec_ranges = rngs, dup_inds = [], dup_scratch = None\<rparr>"

definition get_nodup :: "PETScVector \<Rightarrow> (py_error + real list) \<times> PETScVector" where
  "get_nodup self =
     (if length (dup_inds self) > 0
      then (case dup_scratch self of
              None \<Rightarrow> (Inl TypeError, self)
            | Some scratch \<Rightarrow>
                if length (vec_data self) \<noteq> length scratch \<and> length (vec_data self) \<noteq> 1
                then (Inl ValueError, self)
                else
                  let scratch1 = (if length (vec_data self) = length scratch then vec_data self
                                  else replicate (length scratch) (vec_data self ! 0))
                  in if \<forall>i \<in> set (dup_inds self). i < length scratch1
                     then (let scratch2 = scatter (map (\<lambda>i. (i, 0)) (dup_inds self)) scratch1
                           in (Inr scratch2, self\<lparr>dup_scratch := Some scratch2\<rparr>))
                     else (Inl IndexError, self\<lparr>dup_scratch := Some scratch1\<rparr>))
      else (Inr (vec_data self), self))"

subsection \<open>The processes together\<close>

text \<open>
  \<^verbatim>\<open>
  def get_norm(self):
      return self._comm.allreduce(np.sum(self._get_nodup() ** 2)) ** 0.5

  def dot(self, vec):
      return self._comm.allreduce(np.dot(self._get_nodup(), vec._get_data()))
  \<close>
  \<open>allreduce\<close> is a collective: every process of the communicator calls it with its
  contribution, and every one gets the sum. The processes are a list, the process of
  rank \<open>r\<close> at position \<open>r\<close>, and a method that all of them call yields the common
  result and the vectors as the calls leave them; if a process raises before the
  collective, the first such exception is the result. Scheduling and a process that
  does not take part are outside the model. \<open>x ** 0.5\<close> is the square root of a
  sum of squares. The sums, products and the square root are those of the real
  numbers; the rounding of the floating-point reductions is not modelled.
\<close>

fun gather :: "(py_error + 'a) list \<Rightarrow> py_error + 'a list" where
  "gather [] = Inr []"
| "gather (Inl e # rest) = Inl e"
| "gather (Inr x # rest) = (case gather rest of Inl e \<Rightarrow> Inl e | Inr xs \<Rightarrow> Inr (x # xs))"

definition allreduce :: "real list \<Rightarrow> real" where
  "allreduce contributions = sum_list contributions"

definition np_dot :: "real list \<Rightarrow> real list \<Rightarrow> py_error + real" where
  "np_dot a b = (if length a = length b then Inr (sum_list (map2 (*) a b)) else Inl ValueError)"

definition get_norm :: "PETScVector list \<Rightarrow> (py_error + real) \<times> PETScVector list" where
  "get_norm procs =
     (let runs = map get_nodup procs
      in (case gather (map (\<lambda>run. case fst run of
                                    Inl e \<Rightarrow> Inl e
                                  | Inr a \<Rightarrow> Inr (sum_list (map (\<lambda>x. x ^ 2) a))) runs) of
            Inl e \<Rightarrow> Inl e
          | Inr contributions \<Rightarrow> Inr (sqrt (allreduce contributions)),
          map snd runs))"

definition dot :: "PETScVector list \<Rightarrow> real list list \<Rightarrow> (py_error + real) \<times> PETScVector list" where
  "dot procs vecs =
     (let runs = map get_nodup procs
      in (case gather (map (\<lambda>(run, vec). case fst run of
                                           Inl e \<Rightarrow> Inl e
                                         | Inr a \<Rightarrow> np_dot a vec) (zip runs vecs)) of
            Inl e \<Rightarrow> Inl e
          | Inr contributions \<Rightarrow> Inr (allreduce contributions),
          map snd runs))"

text \<open>
  The vectors of all processes, built from the data and the ranges of each; the
  system of each process differs in its rank only.
\<close>

definition make_vectors ::
  "mpi_system \<Rightarrow> (real list \<times> (string \<times> nat \<times> nat) list) list \<Rightarrow> py_error + PETScVector list" where
  "make_vectors system layouts =
     gather (map (\<lambda>(r, d, rngs).
                    init_dup_inds (system\<lparr>comm_size := length layouts, comm_rank := r\<rparr>)
                      (new_vector d rngs))
                 (enumerate 0 layouts))"

subsection \<open>Locally owned entries\<close>

text \<open>
  Position \<open>i\<close> of a process is a duplicate when it lies in the range of a variable
  that is not distributed and that another process owns. The other positions are
  locally owned. The layout of a process is well formed when its ranges lie in its
  data array, the last one ends where the array ends, and every variable has an owner
  and a \<open>'distributed'\<close> flag.
\<close>

definition is_dup :: "mpi_system \<Rightarrow> (string \<times> nat \<times> nat) list \<Rightarrow> nat \<Rightarrow> bool" where
  "is_dup system rngs i \<longleftrightarrow>
     (\<exists>(name, start, stop) \<in> set rngs.
        start \<le> i \<and> i < stop \<and> var_distributed system name = Some False \<and>
        owning_rank system name \<noteq> Some (comm_rank system))"

definition owned_inds :: "mpi_system \<Rightarrow> (string \<times> nat \<times> nat) list \<Rightarrow> nat \<Rightarrow> nat list" where
  "owned_inds system rngs n = filter (\<lambda>i. \<not> is_dup system rngs i) [0..<n]"

definition wf_layout :: "mpi_system \<Rightarrow> real list \<Rightarrow> (string \<times> nat \<times> nat) list \<Rightarrow> bool" where
  "wf_layout system d rngs \<longleftrightarrow>
     rngs \<noteq> [] \<and> snd (snd (last rngs)) = length d \<and>
     (\<forall>(name, start, stop) \<in> set rngs.
        stop \<le> length d \<and> name \<in> dom (owning_rank system) \<and> name \<in> dom (var_distributed system))"

text \<open>
  What the locally owned entries of one process add to the sum of squares, and to
  the sum of products with the other vector.
\<close>

definition norm_contribution :: "mpi_system \<Rightarrow> nat \<times> real list \<times> (string \<times> nat \<times> nat) list \<Rightarrow> real" where
  "norm_contribution system x =
     (case x of (r, d, rngs) \<Rightarrow>
        sum_list (map (\<lambda>i. (d ! i) ^ 2) (owned_inds (system\<lparr>comm_rank := r\<rparr>) rngs (length d))))"

definition dot_contribution ::
  "mpi_system \<Rightarrow> (nat \<times> real list \<times> (string \<times> nat \<times> nat) list) \<times> real list \<Rightarrow> real" where
  "dot_contribution system x =
     (case x of ((r, d, rngs), vec) \<Rightarrow>
        sum_list (map (\<lambda>i. d ! i * vec ! i) (owned_inds (system\<lparr>comm_rank := r\<rparr>) rngs (length d))))"

subsection \<open>The de-duplicated full vector\<close>

text \<open>
  The vector that the claim compares the norm with: every variable once. The part of
  a variable on a process is the slice of the data array that \<open>ranges()\<close> gives for
  it. A distributed variable is the concatenation of its parts on all processes, in
  the order of the ranks; a variable that is not distributed is the copy that its
  owning process holds, and the replicas on the other processes do not appear. The
  variables are taken in the order in which the processes list them.
\<close>

definition local_part :: "real list \<times> (string \<times> nat \<times> nat) list \<Rightarrow> string \<Rightarrow> real list" where
  "local_part layout name =
     concat (map (\<lambda>t. if fst t = name then py_slice (fst layout) (fst (snd t)) (snd (snd t)) else [])
               (snd layout))"

definition full_var ::
  "mpi_system \<Rightarrow> (real list \<times> (string \<times> nat \<times> nat) list) list \<Rightarrow> string \<Rightarrow> real list" where
  "full_var system layouts name =
     (if var_distributed system name = Some False
      then (case owning_rank system name of
              None \<Rightarrow> []
            | Some r \<Rightarrow> if r < length layouts then local_part (layouts ! r) name else [])
      else concat (map (\<lambda>layout. local_part layout name) layouts))"

definition all_names :: "(real list \<times> (string \<times> nat \<times> nat) list) list \<Rightarrow> string list" where
  "all_names layouts = remdups (map fst (concat (map snd layouts)))"

definition dedup_full_vector ::
  "mpi_system \<Rightarrow> (real list \<times> (string \<times> nat \<times> nat) list) list \<Rightarrow> real list" where
  "dedup_full_vector system layouts = concat (map (full_var system layouts) (all_names layouts))"

text \<open>
  What \<open>ranges()\<close> and \<open>_owning_rank\<close> satisfy in a system that has been set up: the
  ranges of a process follow one another from position 0, and a variable that is not
  distributed is owned by one of the processes that hold it.
\<close>

definition owners_hold ::
  "mpi_system \<Rightarrow> (real list \<times> (string \<times> nat \<times> nat) list) list \<Rightarrow> bool" where
  "owners_hold system layouts \<longleftrightarrow>
     list_all (\<lambda>layout. contiguous_from 0 (snd layout)) layouts \<and>
     list_all (\<lambda>name. var_distributed system name = Some False \<longrightarrow>
                 (case owning_rank system name of
                    None \<Rightarrow> False
                  | Some r \<Rightarrow> r < length layouts \<and> name \<in> set (map fst (snd (layouts ! r)))))
       (all_names layouts)"

text \<open>
  For the proofs: a variable whose copy on this process is a duplicate, what one
  range of a process adds to the sum of squares, and what the ranges of one variable
  on a process hold.
\<close>

definition dup_var :: "mpi_system \<Rightarrow> string \<Rightarrow> bool" where
  "dup_var system name \<longleftrightarrow>
     var_distributed system name = Some False \<and> owning_rank system name \<noteq> Some (comm_rank system)"

definition range_weight :: "mpi_system \<Rightarrow> real list \<Rightarrow> string \<times> nat \<times> nat \<Rightarrow> real" where
  "range_weight system d t =
     (if dup_var system (fst t) then 0
      else sum_list (map (\<lambda>x. x ^ 2) (py_slice d (fst (snd t)) (snd (snd t)))))"

definition name_weight :: "string \<Rightarrow> real list \<times> (string \<times> nat \<times> nat) list \<Rightarrow> real" where
  "name_weight name layout =
     sum_list (map (\<lambda>t. if fst t = name
                          then sum_list (map (\<lambda>x. x ^ 2) (py_slice (fst layout) (fst (snd t)) (snd (snd t))))
                          else 0) (snd layout))"

text \<open>
  Two processes: \<open>a\<close> is on process 0, \<open>c\<close> on process 1, and \<open>b\<close>, not distributed
  and owned by process 0, is on both.
\<close>

definition ex_mpi :: mpi_system where
  "ex_mpi = \<lparr>comm_size = 2, comm_rank = 0,
             owning_rank = [''a'' \<mapsto> 0, ''b'' \<mapsto> 0, ''c'' \<mapsto> 1],
             var_distributed = [''a'' \<mapsto> True, ''b'' \<mapsto> False, ''c'' \<mapsto> True]\<rparr>"

definition ex_layouts :: "(real list \<times> (string \<times> nat \<times> nat) list) list" where
  "ex_layouts = [([3, 4], [(''a'', 0, 1), (''b'', 1, 2)]),
                 ([4, 12], [(''b'', 0, 1), (''c'', 1, 2)])]"

section \<open>The minimum-improvement fallback of a coloring\<close>

text \<open>
  Modelled from the spec: the step of the coloring lifecycle that compares a computed
  coloring with \<open>min_improve_pct\<close>, and the number of model runs of a Jacobian
  evaluation afterwards. The code that does this (\<open>System._compute_coloring\<close>,
  \<open>openmdao.utils.coloring\<close> and the approximation loop over the colors) is not
  among the sources; only \<open>test_partials_min_improvement\<close> in
  \<open>core/tests/test_partial_color.py\<close> is. The spec says:
  \<^item> a Coloring is an ``ordered list of colors; each color is a list of column (or
    row) indices'', and the ``uncolored fallback is the degenerate case where each
    color has exactly one column'';
  \<^item> ``Reported metric: \<open>improvement_pct = 1 - num_colors / num_columns\<close>. The caller
    compares this against a configured minimum; if below threshold, the coloring is
    deactivated (a warning is raised identifying the block by name/class and the
    measured vs. required percentage) and evaluation reverts to
    one-color-per-column'';
  \<^item> ``\<open>COLORED \<rightarrow> ACTIVE\<close>: \<open>improvement_pct \<ge>\<close> configured minimum; subsequent
    evaluations use the colors. \<open>COLORED \<rightarrow> DEACTIVATED\<close>: \<open>improvement_pct\<close> below
    minimum; a warning is emitted naming the block and both percentages; subsequent
    evaluations fall back permanently to uncolored'';
  \<^item> ``each color requires exactly one PerturbationRunner invocation''.
  The measured value and the configured minimum are in one unit, as the spec
  compares them (the test prints both as percentages: 16.7 and 20.0).
\<close>

type_synonym coloring = "nat list list"

definition improvement_pct :: "coloring \<Rightarrow> nat \<Rightarrow> real" where
  "improvement_pct colors num_columns = 1 - real (length colors) / real num_columns"

datatype warning = ColoringDeactivated string real real

datatype lifecycle = COLORED coloring | ACTIVE coloring | DEACTIVATED

text \<open>
  Modelled from the spec: the transition out of \<open>COLORED\<close> for the block \<open>name\<close>. It
  yields the new state and the warnings that are emitted; no exception is raised, so
  there is no error result.
\<close>

definition check_improvement :: "string \<Rightarrow> real \<Rightarrow> nat \<Rightarrow> lifecycle \<Rightarrow> lifecycle \<times> warning list" where
  "check_improvement name min_improve_pct num_columns state =
     (case state of
        COLORED colors \<Rightarrow>
          if improvement_pct colors num_columns < min_improve_pct
          then (DEACTIVATED,
                [ColoringDeactivated name (improvement_pct colors num_columns) min_improve_pct])
          else (ACTIVE colors, [])
      | _ \<Rightarrow> (state, []))"

text \<open>
  Modelled from the spec: the coloring a block retains, the colors a Jacobian
  evaluation goes through, and the evaluation itself, which runs the model once for
  each color and leaves the state as it is. \<open>evaluations k\<close> is \<open>k\<close> evaluations in a
  row with the number of runs of each.
\<close>

definition retained_coloring :: "lifecycle \<Rightarrow> coloring option" where
  "retained_coloring state =
     (case state of COLORED colors \<Rightarrow> Some colors | ACTIVE colors \<Rightarrow> Some colors | DEACTIVATED \<Rightarrow> None)"

definition uncolored :: "nat \<Rightarrow> coloring" where
  "uncolored num_columns = map (\<lambda>j. [j]) [0..<num_columns]"

definition colors_of :: "lifecycle \<Rightarrow> nat \<Rightarrow> coloring" where
  "colors_of state num_columns =
     (case retained_coloring state of Some colors \<Rightarrow> colors | None \<Rightarrow> uncolored num_columns)"

definition evaluate_jacobian :: "lifecycle \<Rightarrow> nat \<Rightarrow> lifecycle \<times> nat" where
  "evaluate_jacobian state num_columns = (state, length (colors_of state num_columns))"

fun evaluations :: "nat \<Rightarrow> lifecycle \<Rightarrow> nat \<Rightarrow> lifecycle \<times> nat list" where
  "evaluations 0 state num_columns = (state, [])"
| "evaluations (Suc k) state num_columns =
     (case evaluate_jacobian state num_columns of
        (state', runs) \<Rightarrow>
          (case evaluations k state' num_columns of
             (state'', more_runs) \<Rightarrow> (state'', runs # more_runs)))"

text \<open>
  The coloring of \<open>test_partials_min_improvement\<close>: of the six columns of its mask
  only columns 0 and 3 share no row, so five colors are needed.
\<close>

definition test_coloring :: coloring where
  "test_coloring = [[0, 3], [1], [2], [4], [5]]"

section \<open>Properties of double-precision rounding\<close>

lemma rne_of_int [simp]: "rne (of_int z) = z"
  by (simp add: rne_def)

lemma rne_bounds: "of_int a \<le> x \<Longrightarrow> x \<le> of_int b \<Longrightarrow> a \<le> rne x \<and> rne x \<le> b"
proof -
  assume a: "of_int a \<le> x" and b: "x \<le> of_int b"
  have fa: "a \<le> \<lfloor>x\<rfloor>" using a by (simp add: le_floor_iff)
  have fb: "\<lfloor>x\<rfloor> \<le> b" using b by (simp add: floor_le_iff)
  show ?thesis
  proof (cases "x = of_int \<lfloor>x\<rfloor>")
    case True
    then have "rne x = \<lfloor>x\<rfloor>" by (metis rne_of_int)
    then show ?thesis using fa fb by simp
  next
    case False
    then have "of_int \<lfloor>x\<rfloor> < x" by (metis of_int_floor_le order_less_le)
    then have "\<lfloor>x\<rfloor> < b" using b by (metis fb of_int_less_iff order_le_less not_less order.strict_trans1)
    moreover have "rne x = \<lfloor>x\<rfloor> \<or> rne x = \<lfloor>x\<rfloor> + 1" by (simp add: rne_def Let_def)
    ultimately show ?thesis using fa by auto
  qed
qed

lemma binade_eq:
  assumes "2 powi e \<le> \<bar>x\<bar>" and "\<bar>x\<bar> < 2 powi (e + 1)" and "- 1022 \<le> e"
  shows "binade x = e"
proof -
  have pos: "0 < \<bar>x\<bar>" using assms(1) by (smt (verit) zero_less_power_int)
  have p: "(2::real) powr (of_int k) = 2 powi k" for k
    by (simp add: powr_real_of_int' power_int_def)
  have "\<lfloor>log 2 \<bar>x\<bar>\<rfloor> = e"
    using assms(1,2) pos p[of e] p[of "e + 1"] by (subst floor_log_eq_powr_iff) simp_all
  then show ?thesis using assms(3) by (simp add: binade_def)
qed

lemma round64_eq:
  assumes "2 powi e \<le> \<bar>x\<bar>" and "\<bar>x\<bar> < 2 powi (e + 1)" and "- 1022 \<le> e"
  shows "round64 x = round_at e x"
proof -
  have "x \<noteq> 0" using assms(1) by (smt (verit) zero_less_power_int abs_zero)
  then show ?thesis using binade_eq[OF assms] by (simp add: round64_def)
qed

lemma rne_numeral [simp]: "rne (numeral k) = numeral k"
  using rne_of_int[of "numeral k"] by simp

lemma round_at_exact:
  assumes "x = of_int z * 2 powi k" and "e - 52 \<le> k"
  shows "round_at e x = x"
proof -
  define m where "m = nat (k - (e - 52))"
  have k: "k = (e - 52) + int m" using assms(2) by (simp add: m_def)
  have "(2::real) powi k = 2 powi (e - 52) * 2 ^ m"
    unfolding k by (simp add: power_int_add)
  then have x: "x = of_int (z * 2 ^ m) * 2 powi (e - 52)"
    using assms(1) by simp
  have nz: "(2::real) powi (e - 52) \<noteq> 0" by simp
  have "x / 2 powi (e - 52) = of_int (z * 2 ^ m)"
    unfolding x using nz by simp
  then have "rne (x / 2 powi (e - 52)) = z * 2 ^ m"
    by (simp only: rne_of_int)
  then show ?thesis unfolding round_at_def using x by simp
qed

lemma round64_of_int:
  assumes "\<bar>n\<bar> < 2 ^ 53"
  shows "round64 (of_int n) = of_int n"
proof (cases "n = 0")
  case True
  then show ?thesis by (simp add: round64_def)
next
  case False
  then have "1 \<le> \<bar>n\<bar>" by simp
  then have "real_of_int 1 \<le> real_of_int \<bar>n\<bar>" by (simp only: of_int_le_iff)
  then have one: "1 \<le> \<bar>real_of_int n\<bar>" by simp
  have "real_of_int \<bar>n\<bar> < real_of_int (2 ^ 53)"
    using assms by (simp only: of_int_less_iff)
  then have "\<bar>real_of_int n\<bar> < 2 ^ 53" by simp
  then have "\<bar>real_of_int n\<bar> < 2 powr 53" by simp
  then have "log 2 \<bar>real_of_int n\<bar> < 53"
    using one by (subst log_less_iff) simp_all
  then have up: "\<lfloor>log 2 \<bar>real_of_int n\<bar>\<rfloor> \<le> 52"
    by (simp add: floor_le_iff)
  have "0 \<le> log 2 \<bar>real_of_int n\<bar>" using one by simp
  then have lo: "0 \<le> \<lfloor>log 2 \<bar>real_of_int n\<bar>\<rfloor>" by simp
  have b: "binade (of_int n) \<le> 52" using up lo by (simp add: binade_def)
  have "round_at (binade (of_int n)) (of_int n) = of_int n"
    using b by (intro round_at_exact[where z = n and k = 0]) simp_all
  then show ?thesis using False by (simp add: round64_def)
qed

lemma round64_numeral:
  "\<bar>numeral k :: int\<bar> < 2 ^ 53 \<Longrightarrow> round64 (numeral k) = numeral k"
  using round64_of_int[of "numeral k"] by simp

lemma round64_one_to_two:
  assumes "1 \<le> y" and "y < 2"
  shows "1 \<le> round64 y \<and> round64 y \<le> 2"
proof -
  have r: "round64 y = round_at 0 y"
    using assms by (intro round64_eq) simp_all
  have "of_int (2 ^ 52) \<le> y * 2 ^ 52" "y * 2 ^ 52 \<le> of_int (2 ^ 53)"
    using assms by simp_all
  then have "2 ^ 52 \<le> rne (y * 2 ^ 52) \<and> rne (y * 2 ^ 52) \<le> 2 ^ 53"
    by (rule rne_bounds)
  then have "2 ^ 52 \<le> real_of_int (rne (y * 2 ^ 52)) \<and> real_of_int (rne (y * 2 ^ 52)) \<le> 2 ^ 53"
    by simp
  then show ?thesis unfolding r round_at_def
    by (simp add: power_int_minus field_simps)
qed

lemma round64_0 [simp]: "round64 0 = 0"
  by (simp add: round64_def)

lemma round64_1 [simp]: "round64 1 = 1"
  using round64_of_int[of 1] by simp

text \<open>
  The doubles nearest to 0.1 and 0.2 are \<open>3602879701896397 / 2 ^ 55\<close> and
  \<open>3602879701896397 / 2 ^ 54\<close>. Their sum is rounded up, and subtracting 0.2 again
  does not give 0.1 back.
\<close>

lemma f64_add_tenth_fifth:
  "f64_add (3602879701896397 / 36028797018963968) (3602879701896397 / 18014398509481984)
     = 1351079888211149 / 4503599627370496"
  unfolding f64_add_def
  by (subst round64_eq[where e = "- 2"]) (simp_all add: round_at_def power_int_minus rne_def Let_def)

lemma f64_sub_sum_fifth:
  "f64_sub (1351079888211149 / 4503599627370496) (3602879701896397 / 18014398509481984)
     = 1801439850948199 / 18014398509481984"
  unfolding f64_sub_def
  by (subst round64_eq[where e = "- 4"]) (simp_all add: round_at_def power_int_minus rne_def Let_def)

text \<open>The largest double below 1 plus 1 is a tie, which goes to 2.\<close>

lemma round64_largest_draw: "round64 ((1 - 1 / 9007199254740992) + 1) = 2"
  by (subst round64_eq[where e = 0]) (simp_all add: round_at_def power_int_minus rne_def Let_def)

lemma f64_add_half_one: "f64_add (1 / 2) 1 = 3 / 2"
  unfolding f64_add_def
  by (subst round64_eq[where e = 0]) (simp_all add: round_at_def power_int_minus rne_def Let_def)

lemma f64_add_largest_draw: "f64_add (9007199254740991 / 9007199254740992) 1 = 2"
  using round64_largest_draw by (simp add: f64_add_def)

text \<open>A draw in \<open>[0, 1)\<close> plus 1 lies in \<open>[1, 2]\<close>.\<close>

lemma f64_add_one_bounds:
  assumes "0 \<le> x" and "x < 1"
  shows "1 \<le> f64_add x 1 \<and> f64_add x 1 \<le> 2"
  unfolding f64_add_def using assms by (intro round64_one_to_two) simp_all

section \<open>Properties of the numpy operations\<close>

subsection \<open>Writing at an index array\<close>

lemma scatter_Nil [simp]: "scatter [] a = a"
  by (simp add: scatter_def)

lemma scatter_Cons [simp]: "scatter ((i, v) # ps) a = scatter ps (a[i := v])"
  by (simp add: scatter_def)

lemma length_scatter [simp]: "length (scatter ps a) = length a"
  by (induction ps arbitrary: a) auto

lemma scatter_nth_notin:
  "j \<notin> fst ` set ps \<Longrightarrow> scatter ps a ! j = a ! j"
  by (induction ps arbitrary: a) auto

lemma scatter_nth_in:
  "j \<in> fst ` set ps \<Longrightarrow> \<forall>(i, v) \<in> set ps. i = j \<longrightarrow> v = x \<Longrightarrow> j < length a \<Longrightarrow>
   scatter ps a ! j = x"
proof (induction ps arbitrary: a)
  case Nil
  then show ?case by simp
next
  case (Cons p ps)
  obtain i v where p: "p = (i, v)" by (cases p)
  show ?case
  proof (cases "j \<in> fst ` set ps")
    case True
    then show ?thesis using Cons p by auto
  next
    case False
    then have "i = j" "v = x" using Cons.prems p by auto
    then show ?thesis using False Cons.prems p by (simp add: scatter_nth_notin)
  qed
qed

lemma scatter_nth_mem:
  "j \<in> fst ` set ps \<Longrightarrow> j < length a \<Longrightarrow> (j, scatter ps a ! j) \<in> set ps"
proof (induction ps arbitrary: a)
  case Nil
  then show ?case by simp
next
  case (Cons p ps)
  obtain i v where p: "p = (i, v)" by (cases p)
  show ?case
  proof (cases "j \<in> fst ` set ps")
    case True
    then have "(j, scatter ps (a[i := v]) ! j) \<in> set ps"
      using Cons.prems by (intro Cons.IH) simp_all
    then show ?thesis using p by simp
  next
    case False
    then have "i = j" using Cons.prems p by auto
    then show ?thesis using False Cons.prems p by (simp add: scatter_nth_notin)
  qed
qed

text \<open>Writing back a function of the indices: every listed position gets its value.\<close>

lemma scatter_zip_map:
  "j < length a \<Longrightarrow>
   scatter (zip idxs (map f idxs)) a ! j = (if j \<in> set idxs then f j else a ! j)"
proof -
  assume j: "j < length a"
  have fst: "fst ` set (zip idxs (map f idxs)) = set idxs"
    by (force simp: set_zip in_set_conv_nth)
  show ?thesis
  proof (cases "j \<in> set idxs")
    case True
    have "\<forall>(i, v) \<in> set (zip idxs (map f idxs)). i = j \<longrightarrow> v = f j"
      by (auto simp: set_zip)
    then show ?thesis using True j fst by (simp add: scatter_nth_in)
  next
    case False
    then show ?thesis using fst by (simp add: scatter_nth_notin)
  qed
qed

subsection \<open>Row-major positions\<close>

lemma flat_index:
  "c < n \<Longrightarrow> (i * n + c) mod n = c \<and> (i * n + c) div n = (i::nat)"
  by simp

lemma flat_index_inj:
  "c < n \<Longrightarrow> c' < n \<Longrightarrow> r * n + c = r' * n + c' \<Longrightarrow> r = r' \<and> c = (c'::nat)"
  by (metis flat_index)


subsection \<open>Broadcasting\<close>

lemma chunks_Suc: "chunks k (Suc m) d = take k d # chunks k m (drop k d)"
proof -
  have "[0..<Suc m] = 0 # map Suc [0..<m]"
    by (simp add: upt_conv_Cons map_Suc_upt del: upt_Suc)
  then have "chunks k (Suc m) d = take k d # map (\<lambda>i. take k (drop (Suc i * k) d)) [0..<m]"
    unfolding chunks_def by (simp add: comp_def del: upt_Suc)
  moreover have "\<And>i. drop (Suc i * k) d = drop (i * k) (drop k d)"
    by (simp add: add.commute)
  ultimately show ?thesis by (simp add: chunks_def)
qed

lemma concat_chunks: "length d = m * k \<Longrightarrow> concat (chunks k m d) = d"
proof (induction m arbitrary: d)
  case 0
  then show ?case by (simp add: chunks_def)
next
  case (Suc m)
  have "length (drop k d) = m * k" using Suc.prems by simp
  then have "concat (chunks k m (drop k d)) = drop k d" by (rule Suc.IH)
  then show ?case by (simp add: chunks_Suc)
qed

lemma length_chunk: "length d = m * k \<Longrightarrow> c \<in> set (chunks k m d) \<Longrightarrow> length c = k"
proof (induction m arbitrary: d)
  case 0
  then show ?case by (simp add: chunks_def)
next
  case (Suc m)
  have l: "length (drop k d) = m * k" using Suc.prems by simp
  have "c = take k d \<or> c \<in> set (chunks k m (drop k d))"
    using Suc.prems(2) by (simp add: chunks_Suc)
  then show ?case
  proof
    assume "c = take k d"
    then show ?thesis using Suc.prems(1) by simp
  next
    assume "c \<in> set (chunks k m (drop k d))"
    then show ?thesis using Suc.IH[OF l] by simp
  qed
qed

text \<open>An array of the shape of the target is copied as it is.\<close>

lemma bdata_same: "length d = prod_list ns \<Longrightarrow> bdata ns ns d = d"
proof (induction ns arbitrary: d)
  case Nil
  then show ?case by simp
next
  case (Cons n ns)
  have len: "length d = n * prod_list ns" using Cons.prems by simp
  have "map (bdata ns ns) (chunks (prod_list ns) n d) = chunks (prod_list ns) n d"
    using Cons.IH length_chunk[OF len] by (simp add: map_idI)
  then show ?case using concat_chunks[OF len] by simp
qed

lemma concat_replicate_replicate: "concat (replicate m (replicate n x)) = replicate (m * n) x"
  by (induction m) (simp_all add: replicate_add)

text \<open>A single element fills the target.\<close>

lemma bdata_fill1: "bdata [n] [Suc 0] [x] = replicate n x"
  by (cases "n = Suc 0") (simp_all add: chunks_def)

lemma bdata_fill2: "bdata [m, n] [Suc 0, Suc 0] [x] = replicate (m * n) x"
proof (cases "m = Suc 0")
  case True
  have "bdata [m, n] [Suc 0, Suc 0] [x] = bdata [n] [Suc 0] [x]"
    using True by (simp add: chunks_def del: bdata.simps(1)) (simp add: chunks_def)
  then show ?thesis using True by (simp only: bdata_fill1) simp
next
  case False
  have "bdata [m, n] [Suc 0, Suc 0] [x] = concat (replicate m (bdata [n] [Suc 0] [x]))"
    using False by simp
  then show ?thesis by (simp only: bdata_fill1 concat_replicate_replicate)
qed

lemma assign_all_scalar_1d:
  assumes "shape src = [] \<or> shape src = [1]" and "data src = [x]" and "shape dst = [k]"
  shows "assign_all dst src = Inr (dst\<lparr>data := replicate k x\<rparr>)"
proof -
  have s: "pad_ones (Suc 0) (strip_ones (Suc 0) (shape src)) = [Suc 0]"
    using assms(1) by (auto simp: pad_ones_def)
  show ?thesis
    unfolding assign_all_def Let_def using assms(2,3) s
    by (simp add: broadcastable_def bdata_fill1 del: bdata.simps)
qed

lemma assign_all_same_1d:
  assumes "shape src = [k]" and "length (data src) = k" and "shape dst = [k]"
  shows "assign_all dst src = Inr (dst\<lparr>data := data src\<rparr>)"
proof -
  have s: "pad_ones (Suc 0) (strip_ones (Suc 0) (shape src)) = [k]"
    using assms(1) by (auto simp: pad_ones_def)
  have "bdata [k] [k] (data src) = data src" using assms(2) by (intro bdata_same) simp
  then show ?thesis
    unfolding assign_all_def Let_def using assms(3) s
    by (simp add: broadcastable_def del: bdata.simps)
qed

lemma assign_all_mismatch_1d:
  assumes "shape src = [n]" and "n \<noteq> k" and "n \<noteq> 1" and "shape dst = [k]"
  shows "assign_all dst src = Inl ValueError"
proof -
  have s: "pad_ones (Suc 0) (strip_ones (Suc 0) (shape src)) = [n]"
    using assms(1) by (auto simp: pad_ones_def)
  show ?thesis
    unfolding assign_all_def Let_def using assms(2,3,4) s
    by (simp add: broadcastable_def del: bdata.simps)
qed

lemma assign_all_fill_2d:
  assumes "shape src = [1, 1]" and "data src = [x]" and "shape dst = [m, n]"
  shows "assign_all dst src = Inr (dst\<lparr>data := replicate (m * n) x\<rparr>)"
proof -
  have s: "pad_ones (Suc (Suc 0)) (strip_ones (Suc (Suc 0)) (shape src)) = [Suc 0, Suc 0]"
    using assms(1) by (auto simp: pad_ones_def)
  show ?thesis
    unfolding assign_all_def Let_def using assms(2,3) s
    by (simp add: broadcastable_def bdata_fill2 del: bdata.simps)
qed

lemma assign_all_same_2d:
  assumes "shape src = [m, n]" and "length (data src) = m * n" and "shape dst = [m, n]"
  shows "assign_all dst src = Inr (dst\<lparr>data := data src\<rparr>)"
proof -
  have s: "pad_ones (Suc (Suc 0)) (strip_ones (Suc (Suc 0)) (shape src)) = [m, n]"
    using assms(1) by (auto simp: pad_ones_def)
  have "bdata [m, n] [m, n] (data src) = data src" using assms(2) by (intro bdata_same) simp
  then show ?thesis
    unfolding assign_all_def Let_def using assms(3) s
    by (simp add: broadcastable_def del: bdata.simps)
qed

text \<open>Assignment to a one-dimensional array, for a source of any shape.\<close>

lemma strip_ones_1d:
  "shp \<noteq> [] \<Longrightarrow>
     (list_all (\<lambda>d. d = 1) (butlast shp) \<longrightarrow> strip_ones (Suc 0) shp = [last shp]) \<and>
     (\<not> list_all (\<lambda>d. d = 1) (butlast shp) \<longrightarrow> 2 \<le> length (strip_ones (Suc 0) shp))"
proof (induction shp)
  case Nil
  then show ?case by simp
next
  case (Cons d ds)
  show ?case
  proof (cases "ds = []")
    case True
    then show ?thesis by simp
  next
    case False
    then obtain e es where ds: "ds = e # es" by (cases ds) auto
    show ?thesis using Cons.IH False by (cases "d = 1") (auto simp: ds)
  qed
qed

lemma prod_list_ones:
  "shp \<noteq> [] \<Longrightarrow> list_all (\<lambda>d. d = 1) (butlast shp) \<Longrightarrow> prod_list shp = last shp"
  by (induction shp) (auto split: if_splits)

lemma bdata_copy1: "length d = k \<Longrightarrow> bdata [k] [k] d = d"
  by (rule bdata_same) simp

lemma assign_all_1d_ok:
  assumes dst: "shape dst = [k]"
    and ok: "broadcasts_1d k (shape src)"
    and wf: "length (data src) = prod_list (shape src)"
  shows "assign_all dst src =
           Inr (dst\<lparr>data := if shape src \<noteq> [] \<and> last (shape src) = k then data src
                             else replicate k (data src ! 0)\<rparr>)"
proof (cases "shape src = []")
  case True
  then obtain x where x: "data src = [x]" using wf by (cases "data src") auto
  show ?thesis using assign_all_scalar_1d[of src x dst k] True x dst by simp
next
  case False
  then have ones: "list_all (\<lambda>d. d = 1) (butlast (shape src))"
    and l: "last (shape src) = 1 \<or> last (shape src) = k"
    using ok by (auto simp: broadcasts_1d_def)
  have st: "strip_ones (Suc 0) (shape src) = [last (shape src)]"
    using strip_ones_1d[OF False] ones by simp
  then have s: "pad_ones (Suc 0) (strip_ones (Suc 0) (shape src)) = [last (shape src)]"
    by (simp add: pad_ones_def)
  have len: "length (data src) = last (shape src)"
    using wf prod_list_ones[OF False ones] by simp
  show ?thesis
  proof (cases "last (shape src) = k")
    case True
    have "bdata [k] [k] (data src) = data src" using len True by (intro bdata_copy1) simp
    then show ?thesis
      unfolding assign_all_def Let_def using dst s True False
      by (simp add: broadcastable_def del: bdata.simps)
  next
    case k: False
    then have l1: "last (shape src) = Suc 0" using l by simp
    then obtain x where x: "data src = [x]" using len by (cases "data src") auto
    show ?thesis
      unfolding assign_all_def Let_def using dst s l1 k x
      by (simp add: broadcastable_def bdata_fill1 del: bdata.simps)
  qed
qed

lemma assign_all_1d_bad:
  assumes dst: "shape dst = [k]"
    and bad: "\<not> broadcasts_1d k (shape src)"
  shows "assign_all dst src = Inl ValueError"
proof -
  have ne: "shape src \<noteq> []" using bad by (auto simp: broadcasts_1d_def)
  show ?thesis
  proof (cases "list_all (\<lambda>d. d = 1) (butlast (shape src))")
    case True
    then have l: "last (shape src) \<noteq> 1 \<and> last (shape src) \<noteq> k"
      using bad by (auto simp: broadcasts_1d_def)
    have "strip_ones (Suc 0) (shape src) = [last (shape src)]"
      using strip_ones_1d[OF ne] True by simp
    then have s: "pad_ones (Suc 0) (strip_ones (Suc 0) (shape src)) = [last (shape src)]"
      by (simp add: pad_ones_def)
    show ?thesis
      unfolding assign_all_def Let_def using dst s l
      by (simp add: broadcastable_def del: bdata.simps)
  next
    case False
    then have two: "2 \<le> length (strip_ones (Suc 0) (shape src))"
      using strip_ones_1d[OF ne] by simp
    then have "length (pad_ones (Suc 0) (strip_ones (Suc 0) (shape src))) \<noteq> length [k]"
      by (simp add: pad_ones_def)
    then have "\<not> broadcastable [k] (pad_ones (Suc 0) (strip_ones (Suc 0) (shape src)))"
      unfolding broadcastable_def by (metis list_all2_lengthD)
    then show ?thesis
      unfolding assign_all_def Let_def using dst by simp
  qed
qed

section \<open>Properties of \<open>evenly_distrib_idxs\<close>\<close>

lemma wrap_id: "0 < w \<Longrightarrow> fits w x \<Longrightarrow> wrap w x = x"
proof -
  assume w: "0 < w" and f: "fits w x"
  have p: "(2::int) ^ w = 2 * 2 ^ (w - 1)"
    using w by (cases w) simp_all
  have "0 \<le> x + 2 ^ (w - 1)" "x + 2 ^ (w - 1) < 2 ^ w"
    using f p by (simp_all add: fits_def)
  then have "(x + 2 ^ (w - 1)) mod 2 ^ w = x + 2 ^ (w - 1)"
    by simp
  then show ?thesis by (simp add: wrap_def)
qed

lemma length_cumsum_from: "length (cumsum_from w acc xs) = length xs"
  by (induction xs arbitrary: acc) (simp_all add: Let_def)

text \<open>As long as the running sum stays in range, \<open>cumsum\<close> yields the exact partial sums.\<close>

lemma cumsum_from_nth:
  "0 < w \<Longrightarrow> \<forall>x\<in>set xs. 0 \<le> x \<Longrightarrow> 0 \<le> acc \<Longrightarrow> acc + sum_list xs < 2 ^ (w - 1) \<Longrightarrow>
   k < length xs \<Longrightarrow> cumsum_from w acc xs ! k = acc + sum_list (take (Suc k) xs)"
proof (induction xs arbitrary: acc k)
  case Nil
  then show ?case by simp
next
  case (Cons x xs)
  have x0: "0 \<le> x" using Cons.prems by simp
  have s0: "0 \<le> sum_list xs" using Cons.prems by (simp add: sum_list_nonneg)
  have "fits w (acc + x)"
    using Cons.prems x0 s0 by (simp add: fits_def)
  then have wr: "wrap w (acc + x) = acc + x"
    using Cons.prems(1) by (simp add: wrap_id)
  show ?case
  proof (cases k)
    case 0
    then show ?thesis by (simp add: wr Let_def)
  next
    case (Suc j)
    have "cumsum_from w (acc + x) xs ! j = (acc + x) + sum_list (take (Suc j) xs)"
      using Cons.prems x0 Suc by (intro Cons.IH) auto
    then show ?thesis using Suc by (simp add: wr Let_def add.assoc)
  qed
qed

lemma sum_list_even_split:
  assumes n: "1 \<le> n" and s: "0 \<le> s"
  shows "sum_list (replicate (nat (s mod n)) (s div n + 1)
                    @ replicate (nat n - nat (s mod n)) (s div n)) = (s::int)"
proof -
  have m: "0 \<le> s mod n" "s mod n < n" using n by simp_all
  have "sum_list (replicate (nat (s mod n)) (s div n + 1) @ replicate (nat n - nat (s mod n)) (s div n))
        = int (nat (s mod n)) * (s div n + 1) + int (nat n - nat (s mod n)) * (s div n)"
    by (simp add: sum_list_replicate)
  also have "\<dots> = (s mod n) * (s div n + 1) + (n - s mod n) * (s div n)"
  proof -
    have "nat n - nat (s mod n) = nat (n - s mod n)"
      using m n by (simp add: nat_diff_distrib')
    then have "int (nat n - nat (s mod n)) = n - s mod n"
      using m by simp
    then show ?thesis using m by simp
  qed
  also have "\<dots> = n * (s div n) + s mod n"
    by (simp add: algebra_simps)
  also have "\<dots> = s" by simp
  finally show ?thesis .
qed

text \<open>
  Claim C9, as the source has it. An array size that does not fit the element type of
  the arrays is refused: with 64-bit elements, one division and \<open>arr_size = 2 ^ 64\<close>,
  \<open>base\<close> is \<open>2 ^ 64\<close> and \<open>np.full\<close> raises \<open>OverflowError\<close>, so no pair of arrays is
  returned.
\<close>

theorem evenly_distrib_idxs_overflow_counterexample:
  "evenly_distrib_idxs 64 1 (2 ^ 64) = Inl OverflowError"
  by (simp add: evenly_distrib_idxs_def fits_def)

text \<open>
  Claim C9, amended. For an element type of \<open>w\<close> bits, every \<open>num_divisions = n \<ge> 1\<close>
  and every \<open>arr_size = s\<close> with \<open>0 \<le> s < 2 ^ (w - 1)\<close>, \<open>evenly_distrib_idxs\<close> returns a
  pair \<open>(sizes, offsets)\<close> of arrays of length \<open>n\<close> such that the sizes add up to \<open>s\<close>,
  the first \<open>s mod n\<close> sizes are \<open>s div n + 1\<close> and the others \<open>s div n\<close>, the first
  offset is 0 and every other offset is the offset before it plus the size before it.
\<close>

theorem evenly_distrib_idxs_even:
  assumes w: "0 < w" and n: "1 \<le> n" and s: "0 \<le> s" and b: "s < 2 ^ (w - 1)"
  shows "\<exists>sizes offsets.
           evenly_distrib_idxs w n s = Inr (sizes, offsets) \<and>
           length sizes = nat n \<and> length offsets = nat n \<and>
           sum_list sizes = s \<and>
           (\<forall>i < nat n. sizes ! i = (if int i < s mod n then s div n + 1 else s div n)) \<and>
           offsets ! 0 = 0 \<and>
           (\<forall>i. 0 < i \<and> i < nat n \<longrightarrow> offsets ! i = offsets ! (i - 1) + sizes ! (i - 1))"
proof -
  define base where "base = s div n"
  define lo where "lo = nat (s mod n)"
  define sizes where "sizes = replicate lo (base + 1) @ replicate (nat n - lo) base"
  define offsets where "offsets = (0::int) # butlast (cumsum w sizes)"
  have m: "0 \<le> s mod n" "s mod n < n" using n by simp_all
  have lo_le: "lo < nat n" using m by (simp add: lo_def nat_less_iff)
  have base0: "0 \<le> base" using n s by (simp add: base_def pos_imp_zdiv_nonneg_iff)
  have dec: "s = n * base + s mod n" by (simp add: base_def)
  have bnb: "base \<le> n * base" using n base0 by (simp add: mult_le_cancel_right1)
  have base_le: "base \<le> s" using dec bnb m by linarith
  have fb: "fits w base" using base0 base_le b by (simp add: fits_def)
  have sum: "sum_list sizes = s"
    unfolding sizes_def base_def lo_def using sum_list_even_split[OF n s] .
  have "lo > 0 \<Longrightarrow> base + 1 \<le> s"
  proof -
    assume "lo > 0"
    then have "1 \<le> s mod n" by (simp add: lo_def)
    then show ?thesis using dec bnb by linarith
  qed
  then have wr: "lo > 0 \<Longrightarrow> wrap w (base + 1) = base + 1"
    using base0 b w by (intro wrap_id) (auto simp: fits_def)
  have sz: "map (\<lambda>x. wrap w (x + 1)) (take lo (replicate (nat n) base))
              @ drop lo (replicate (nat n) base) = sizes"
    using lo_le wr by (cases "lo = 0") (simp_all add: sizes_def min_def)
  have res: "evenly_distrib_idxs w n s = Inr (sizes, offsets)"
    using n fb sz
    by (simp add: evenly_distrib_idxs_def Let_def base_def[symmetric] lo_def[symmetric] offsets_def)
  have len: "length sizes = nat n" using lo_le by (simp add: sizes_def)
  have nonneg: "\<forall>x\<in>set sizes. 0 \<le> x" using base0 by (auto simp: sizes_def)
  have cs: "k < length sizes \<Longrightarrow> cumsum w sizes ! k = sum_list (take (Suc k) sizes)" for k
    using cumsum_from_nth[OF w nonneg, of 0 k] sum b by (simp add: cumsum_def)
  have lenc: "length (cumsum w sizes) = nat n" by (simp add: cumsum_def length_cumsum_from len)
  have leno: "length offsets = nat n" using lenc lo_le by (simp add: offsets_def)
  have nth_sizes: "\<forall>i < nat n. sizes ! i = (if int i < s mod n then s div n + 1 else s div n)"
    using m by (auto simp: sizes_def nth_append lo_def base_def)
  have off: "i < nat n \<Longrightarrow> offsets ! i = sum_list (take i sizes)" for i
  proof (cases i)
    case 0
    then show ?thesis by (simp add: offsets_def)
  next
    case (Suc j)
    assume "i < nat n"
    then have j: "j < nat n - 1" using Suc by simp
    then have "offsets ! i = cumsum w sizes ! j"
      using Suc lenc by (simp add: offsets_def nth_butlast)
    also have "\<dots> = sum_list (take (Suc j) sizes)" using j len by (intro cs) simp
    finally show ?thesis using Suc by simp
  qed
  have rec: "\<forall>i. 0 < i \<and> i < nat n \<longrightarrow> offsets ! i = offsets ! (i - 1) + sizes ! (i - 1)"
  proof (intro allI impI)
    fix i assume i: "0 < i \<and> i < nat n"
    then obtain j where j: "i = Suc j" by (cases i) auto
    have "sum_list (take (Suc j) sizes) = sum_list (take j sizes) + sizes ! j"
      using i j len by (simp add: take_Suc_conv_app_nth)
    then show "offsets ! i = offsets ! (i - 1) + sizes ! (i - 1)"
      using off[of i] off[of j] i j by simp
  qed
  show ?thesis
    using res len leno sum nth_sizes rec
    by (intro exI[of _ sizes] exI[of _ offsets]) (simp add: offsets_def)
qed

theorem evenly_distrib_idxs_even_witness:
  "\<exists>sizes offsets. evenly_distrib_idxs 64 3 10 = Inr (sizes, offsets) \<and>
     length sizes = 3 \<and> length offsets = 3 \<and> sum_list sizes = 10 \<and> offsets ! 0 = 0"
  using evenly_distrib_idxs_even [of 64 3 10] by simp blast

section \<open>Properties of \<open>ValueRepeater\<close>\<close>

text \<open>
  Claim C10. For a \<open>ValueRepeater(val, size)\<close> with \<open>size \<ge> 0\<close>, \<open>__getitem__(idx)\<close>
  raises \<open>IndexError\<close> exactly when \<open>idx \<ge> size\<close>; in every other case, and so for
  every negative index, also one below \<open>-size\<close>, it returns \<open>val\<close>.
\<close>

theorem ValueRepeater_getitem_raises_iff:
  "0 \<le> n \<Longrightarrow>
     (ValueRepeater_getitem (ValueRepeater_init v n) idx = Inl IndexError \<longleftrightarrow> idx \<ge> n) \<and>
     (idx < n \<longrightarrow> ValueRepeater_getitem (ValueRepeater_init v n) idx = Inr v) \<and>
     (idx < 0 \<longrightarrow> ValueRepeater_getitem (ValueRepeater_init v n) idx = Inr v)"
  by (auto simp: ValueRepeater_getitem_def ValueRepeater_init_def Let_def)

theorem ValueRepeater_getitem_raises_iff_witness:
  "(0::int) \<le> 3 \<and>
   ValueRepeater_getitem (ValueRepeater_init ''v'' 3) 3 = Inl IndexError \<and>
   ValueRepeater_getitem (ValueRepeater_init ''v'' 3) (- 7) = Inr ''v''"
  using ValueRepeater_getitem_raises_iff [of 3 "''v''" 3]
        ValueRepeater_getitem_raises_iff [of 3 "''v''" "- 7"]
  by simp

section \<open>Properties of \<open>_run_point\<close>\<close>

subsection \<open>The in-place shift\<close>

text \<open>Reading, shifting and writing back shifts every listed position once.\<close>

lemma fancy_inplace_eq:
  "fancy_inplace f a idxs delta =
     (if \<forall>i \<in> set idxs. i < length a then Inr (shl f idxs delta a) else Inl IndexError)"
proof (cases "\<forall>i \<in> set idxs. i < length a")
  case False
  then show ?thesis by (auto simp: fancy_inplace_def)
next
  case True
  have "scatter (zip idxs (map (\<lambda>i. f (a ! i) delta) idxs)) a = shl f idxs delta a"
    by (rule nth_equalityI) (simp_all add: shl_def scatter_zip_map)
  then show ?thesis using True by (simp add: fancy_inplace_def)
qed

lemma length_shl: "length (shl f idxs delta a) = length a"
  by (simp add: shl_def)

subsection \<open>The loops over \<open>input_deltas\<close>\<close>

lemma valid_upd: "valid (upd f t st) u = valid st u"
  by (cases t; cases u; cases st) (auto simp: length_shl split: option.splits)

lemma valid_fold: "valid (fold (upd f) ds st) u = valid st u"
  by (induction ds arbitrary: st) (simp_all add: valid_upd)

text \<open>A loop ends without an exception exactly when every triple passes its checks.\<close>

lemma shift_deltas_eq:
  "shift_deltas f st ds = (st', None) \<longleftrightarrow> (\<forall>t \<in> set ds. valid st t) \<and> st' = fold (upd f) ds st"
proof (induction ds arbitrary: st)
  case Nil
  then show ?case by (cases st) auto
next
  case (Cons t ds)
  obtain ins outs where st: "st = (ins, outs)" by (cases st)
  obtain n idxs d where t: "t = (n, idxs, d)" by (cases t)
  show ?case
  proof (cases "valid st t")
    case False
    then show ?thesis unfolding st t
      by (auto simp: fancy_inplace_eq split: option.splits)
  next
    case True
    then have "shift_deltas f st (t # ds) = shift_deltas f (upd f t st) ds"
      unfolding st t by (auto simp: fancy_inplace_eq split: option.splits)
    then show ?thesis using True Cons.IH[of "upd f t st"] by (simp add: valid_upd)
  qed
qed

text \<open>What a loop that ran to its end leaves, entry by entry.\<close>

lemma deltas_at_Cons:
  "deltas_at ((n, idxs, d) # ds) name j =
     (if n = name \<and> j \<in> set idxs then d # deltas_at ds name j else deltas_at ds name j)"
  by (simp add: deltas_at_def)

lemma shifted_Nil: "shifted f [] name a = a"
  by (rule nth_equalityI) (simp_all add: shifted_def deltas_at_def)

lemma shifted_Nil_id: "shifted f [] name = id"
  by (rule ext) (simp add: shifted_Nil)

lemma shifted_Cons_same: "shifted f ((n, idxs, d) # ds) n a = shifted f ds n (shl f idxs d a)"
  by (rule nth_equalityI) (simp_all add: shifted_def shl_def deltas_at_Cons)

lemma shifted_Cons_other: "n \<noteq> name \<Longrightarrow> shifted f ((n, idxs, d) # ds) name = shifted f ds name"
  by (rule ext) (simp add: shifted_def deltas_at_Cons)

lemma fold_upd_eq:
  "fold (upd f) ds (ins, outs) = (shift_inputs f ds outs ins, shift_outputs f ds outs)"
proof (induction ds arbitrary: ins outs)
  case Nil
  have "shift_inputs f [] outs ins = ins"
    by (rule ext) (simp add: shift_inputs_def shifted_Nil_id option.map_id)
  moreover have "shift_outputs f [] outs = outs"
    by (rule ext) (simp add: shift_outputs_def shifted_Nil_id option.map_id)
  ultimately show ?case by simp
next
  case (Cons t ds)
  obtain n idxs d where t: "t = (n, idxs, d)" by (cases t)
  show ?case
  proof (cases "outs n")
    case (Some a)
    have o: "shift_outputs f ds (outs(n \<mapsto> shl f idxs d a)) = shift_outputs f (t # ds) outs"
      unfolding t by (rule ext) (simp add: shift_outputs_def Some shifted_Cons_same shifted_Cons_other)
    have i: "shift_inputs f ds (outs(n \<mapsto> shl f idxs d a)) ins = shift_inputs f (t # ds) outs ins"
      unfolding t by (rule ext) (auto simp: shift_inputs_def Some shifted_Cons_other)
    have "fold (upd f) (t # ds) (ins, outs) = fold (upd f) ds (ins, outs(n \<mapsto> shl f idxs d a))"
      by (simp add: t Some)
    then show ?thesis by (simp only: Cons.IH o i)
  next
    case None
    note on = None
    show ?thesis
    proof (cases "ins n")
      case None
      have o: "shift_outputs f ds outs = shift_outputs f (t # ds) outs"
        unfolding t
      proof (rule ext)
        fix name
        show "shift_outputs f ds outs name = shift_outputs f ((n, idxs, d) # ds) outs name"
          by (cases "name = n") (simp_all add: shift_outputs_def on shifted_Cons_other)
      qed
      have i: "shift_inputs f ds outs ins = shift_inputs f (t # ds) outs ins"
        unfolding t
      proof (rule ext)
        fix name
        show "shift_inputs f ds outs ins name = shift_inputs f ((n, idxs, d) # ds) outs ins name"
          by (cases "name = n") (simp_all add: shift_inputs_def on None shifted_Cons_other)
      qed
      have "fold (upd f) (t # ds) (ins, outs) = fold (upd f) ds (ins, outs)"
        by (simp add: t on None)
      then show ?thesis by (simp only: Cons.IH o i)
    next
      case (Some a)
      have o: "shift_outputs f ds outs = shift_outputs f (t # ds) outs"
        unfolding t
      proof (rule ext)
        fix name
        show "shift_outputs f ds outs name = shift_outputs f ((n, idxs, d) # ds) outs name"
          by (cases "name = n") (simp_all add: shift_outputs_def on shifted_Cons_other)
      qed
      have i: "shift_inputs f ds outs (ins(n \<mapsto> shl f idxs d a)) = shift_inputs f (t # ds) outs ins"
        unfolding t
      proof (rule ext)
        fix name
        show "shift_inputs f ds outs (ins(n \<mapsto> shl f idxs d a)) name
                = shift_inputs f ((n, idxs, d) # ds) outs ins name"
          by (cases "name = n")
            (simp_all add: shift_inputs_def on Some shifted_Cons_same shifted_Cons_other)
      qed
      have "fold (upd f) (t # ds) (ins, outs) = fold (upd f) ds (ins(n \<mapsto> shl f idxs d a), outs)"
        by (simp add: t on Some)
      then show ?thesis by (simp only: Cons.IH o i)
    qed
  qed
qed

lemma shift_deltas_valid:
  assumes "\<forall>t \<in> set ds. valid (ins, outs) t"
  shows "shift_deltas f (ins, outs) ds = ((shift_inputs f ds outs ins, shift_outputs f ds outs), None)"
  using assms shift_deltas_eq[of f "(ins, outs)" ds "fold (upd f) ds (ins, outs)"]
  by (simp add: fold_upd_eq)

lemma valid_shifted:
  "valid (shift_inputs f ds outs ins, shift_outputs f ds outs) u = valid (ins, outs) u"
  using valid_fold[of f ds "(ins, outs)" u] by (simp add: fold_upd_eq)

lemma shifted_there_and_back:
  "shifted sub ds name (shifted add ds name a) = there_and_back add sub ds name a"
  by (rule nth_equalityI) (simp_all add: shifted_def there_and_back_def)

lemma shift_outputs_back:
  "shift_outputs sub ds (shift_outputs add ds outs)
     = (\<lambda>name. map_option (there_and_back add sub ds name) (outs name))"
  by (rule ext) (simp add: shift_outputs_def option.map_comp comp_def shifted_there_and_back)

lemma shift_inputs_back:
  "shift_inputs sub ds (shift_outputs add ds outs) (shift_inputs add ds outs ins)
     = (\<lambda>name. if outs name = None then map_option (there_and_back add sub ds name) (ins name)
                else ins name)"
  by (rule ext)
    (simp add: shift_inputs_def shift_outputs_def option.map_comp comp_def shifted_there_and_back)

lemma example_perturbed:
  "shift_deltas f64_add (inputs example_system, outputs example_system) [(''x'', [0], 1)]
     = (([''x'' \<mapsto> [1, 5]], [''y'' \<mapsto> [3]]), None)"
  by (simp add: example_system_def fancy_inplace_def f64_add_def)

subsection \<open>A model evaluation that raises\<close>

text \<open>
  Claim C1, as the source has it. The input \<open>x = [0, 5]\<close> is perturbed by 1 at index 0
  and the evaluation raises: the exception reaches the caller, and the input is still
  \<open>[1, 5]\<close>. There is no \<open>try\<close>/\<open>finally\<close> around \<open>run_model()\<close>; the subtracting loop
  is not reached.
\<close>

theorem run_point_raise_counterexample:
  "raised (run_point f64_add f64_sub failing_model failing_model example_system [(''x'', [0], 1)]
             Map.empty Map.empty ''partial'') = Some (ModelError 0) \<and>
   inputs (system_after (run_point f64_add f64_sub failing_model failing_model example_system
             [(''x'', [0], 1)] Map.empty Map.empty ''partial'')) ''x'' = Some [1, 5] \<and>
   inputs example_system ''x'' = Some [0, 5]"
  by (simp add: run_point_def run_apply_nonlinear_def failing_model_def example_system_def
        fancy_inplace_def Let_def f64_add_def)

text \<open>
  Claim C1, amended. For every call to \<open>_run_point\<close> with \<open>deriv_type\<close> \<open>'total'\<close> or
  \<open>'partial'\<close> in which the model evaluation raises an exception, the exception
  propagates to the caller at once and nothing is cleaned up: the evaluation was
  invoked once, \<open>results\<close> is not written, the inputs and outputs keep every delta that
  was applied, and the observed result vector keeps what the evaluation left in it
  (the cache buffer holds its perturbed contents from before the evaluation).
\<close>

theorem run_point_raise_leaves_perturbed:
  assumes dt: "deriv_type = ''total'' \<or> deriv_type = ''partial''"
    and pert: "shift_deltas add (inputs system, outputs system) input_deltas = ((ins1, outs1), None)"
    and ev: "(if deriv_type = ''total'' then solve else apply_nl)
               (system\<lparr>inputs := ins1, outputs := outs1\<rparr>) = (v, Some e)"
  shows "run_point add sub solve apply_nl system input_deltas cache results deriv_type =
           \<lparr>raised = Some e,
            system_after =
              (if deriv_type = ''total''
               then system\<lparr>inputs := ins1, outputs := v, nruns := nruns system + 1\<rparr>
               else system\<lparr>inputs := ins1, outputs := outs1, residuals := v,
                           nruns := nruns system + 1\<rparr>),
            cache_after = (if deriv_type = ''total'' then outs1 else residuals system),
            results_after = results\<rparr>"
proof (cases "deriv_type = ''total''")
  case True
  show ?thesis using True pert ev
    by (simp add: run_point_def run_solve_nonlinear_def Let_def)
next
  case False
  then have p: "deriv_type = ''partial''" using dt by simp
  show ?thesis using p pert ev
    by (simp add: run_point_def run_apply_nonlinear_def Let_def)
qed

theorem run_point_raise_leaves_perturbed_witness:
  "run_point f64_add f64_sub failing_model failing_model example_system [(''x'', [0], 1)]
       [''y'' \<mapsto> [7]] [''y'' \<mapsto> [8]] ''total''
     = \<lparr>raised = Some (ModelError 0),
        system_after = \<lparr>inputs = [''x'' \<mapsto> [1, 5]], outputs = [''y'' \<mapsto> [0]],
                        residuals = [''y'' \<mapsto> [0]], nruns = 1\<rparr>,
        cache_after = [''y'' \<mapsto> [3]], results_after = [''y'' \<mapsto> [8]]\<rparr>"
  using run_point_raise_leaves_perturbed [of "''total''" f64_add example_system "[(''x'', [0], 1)]"
      "[''x'' \<mapsto> [1, 5]]" "[''y'' \<mapsto> [3]]" failing_model failing_model
      "[''y'' \<mapsto> [0]]" "ModelError 0" f64_sub "[''y'' \<mapsto> [7]]" "[''y'' \<mapsto> [8]]"]
    example_perturbed
  by (simp add: failing_model_def example_system_def)

lemma wide_added:
  "shift_inputs f64_add wide_deltas (outputs wide_system) (inputs wide_system)
     = [''x'' \<mapsto> [1, 5, 12], ''z'' \<mapsto> [1]]"
  "shift_outputs f64_add wide_deltas (outputs wide_system) = [''y'' \<mapsto> [3, 6]]"
  by (rule ext, simp add: shift_inputs_def shift_outputs_def shifted_def deltas_at_def
        wide_system_def wide_deltas_def f64_add_def upt_rec round64_numeral)+

lemma wide_there_and_back:
  "there_and_back f64_add f64_sub wide_deltas ''x'' [0, 5, 7] = [0, 5, 7]"
  "there_and_back f64_add f64_sub wide_deltas ''z'' [1] = [1]"
  "there_and_back f64_add f64_sub wide_deltas ''y'' [3, 4] = [3, 4]"
  by (simp_all add: there_and_back_def deltas_at_def wide_deltas_def f64_add_def f64_sub_def
        upt_rec round64_numeral)

subsection \<open>A model evaluation that returns\<close>

text \<open>
  Claim C2, as the source has it. The input \<open>x\<close> holds the double 0.1 and is perturbed
  by the double 0.2 at index 0; the evaluation returns and leaves the residuals as
  they are. \<open>x[0] += 0.2\<close> stores the double 0.30000000000000004 and \<open>x[0] -= 0.2\<close>
  the double 0.10000000000000003: the call returns with an input that is not the
  value held on entry.
\<close>

theorem run_point_rounding_counterexample:
  "raised (run_point f64_add f64_sub idle_model idle_model tenth_system
             [(''x'', [0], 3602879701896397 / 18014398509481984)]
             Map.empty Map.empty ''partial'') = None \<and>
   inputs (system_after (run_point f64_add f64_sub idle_model idle_model tenth_system
             [(''x'', [0], 3602879701896397 / 18014398509481984)]
             Map.empty Map.empty ''partial'')) ''x''
     = Some [1801439850948199 / 18014398509481984] \<and>
   inputs tenth_system ''x'' = Some [3602879701896397 / 36028797018963968]"
  by (simp add: run_point_def run_apply_nonlinear_def idle_model_def tenth_system_def
        fancy_inplace_def Let_def f64_add_tenth_fifth f64_sub_sum_fifth)

text \<open>
  Claim C2, amended. For every call to \<open>_run_point\<close> with \<open>deriv_type\<close> \<open>'total'\<close> or
  \<open>'partial'\<close> in which every triple of \<open>input_deltas\<close> names a variable of the
  outputs or the inputs with indices inside it, and the model evaluation returns
  normally: the call returns; the evaluation was invoked exactly once, on the system
  in which every named entry has had its deltas added with \<open>+=\<close>, one triple after the
  other; \<open>results\<close> holds what that evaluation left in the observed result vector;
  the residuals are exactly what they were on entry; and every entry \<open>x\<close> of the
  inputs and outputs holds \<open>x\<close> with its deltas added and then subtracted with \<open>-=\<close>
  in the arithmetic of the array, which is \<open>x\<close> itself for an entry that no triple
  names and \<open>x\<close> up to the rounding of that arithmetic for the others.
\<close>

theorem run_point_restores:
  assumes dt: "deriv_type = ''total'' \<or> deriv_type = ''partial''"
    and ok: "\<forall>t \<in> set input_deltas. valid (inputs system, outputs system) t"
    and ev: "(if deriv_type = ''total'' then solve else apply_nl)
               (system\<lparr>inputs := shift_inputs add input_deltas (outputs system) (inputs system),
                       outputs := shift_outputs add input_deltas (outputs system)\<rparr>) = (v, None)"
  shows "run_point add sub solve apply_nl system input_deltas cache results deriv_type =
           \<lparr>raised = None,
            system_after = system
              \<lparr>inputs := (\<lambda>name. if outputs system name = None
                            then map_option (there_and_back add sub input_deltas name)
                                   (inputs system name)
                            else inputs system name),
               outputs := (\<lambda>name. map_option (there_and_back add sub input_deltas name)
                                     (outputs system name)),
               nruns := nruns system + 1\<rparr>,
            cache_after = (if deriv_type = ''total''
                           then shift_outputs add input_deltas (outputs system)
                           else residuals system),
            results_after = v\<rparr>"
proof -
  let ?ins1 = "shift_inputs add input_deltas (outputs system) (inputs system)"
  let ?outs1 = "shift_outputs add input_deltas (outputs system)"
  have pert: "shift_deltas add (inputs system, outputs system) input_deltas = ((?ins1, ?outs1), None)"
    using ok by (rule shift_deltas_valid)
  have "\<forall>t \<in> set input_deltas. valid (?ins1, ?outs1) t"
    using ok by (simp add: valid_shifted)
  then have "shift_deltas sub (?ins1, ?outs1) input_deltas
       = ((shift_inputs sub input_deltas ?outs1 ?ins1, shift_outputs sub input_deltas ?outs1), None)"
    by (rule shift_deltas_valid)
  then have undo: "shift_deltas sub (?ins1, ?outs1) input_deltas
       = (((\<lambda>name. if outputs system name = None
                    then map_option (there_and_back add sub input_deltas name) (inputs system name)
                    else inputs system name),
           (\<lambda>name. map_option (there_and_back add sub input_deltas name) (outputs system name))),
          None)"
    by (simp only: shift_outputs_back shift_inputs_back)
  show ?thesis
  proof (cases "deriv_type = ''total''")
    case True
    show ?thesis using True pert ev undo
      by (simp add: run_point_def run_solve_nonlinear_def Let_def)
  next
    case False
    then have p: "deriv_type = ''partial''" using dt by simp
    show ?thesis using p pert ev undo
      by (simp add: run_point_def run_apply_nonlinear_def Let_def)
  qed
qed

theorem run_point_restores_witness:
  "run_point f64_add f64_sub summing_model summing_model wide_system wide_deltas
       Map.empty Map.empty ''total''
     = \<lparr>raised = None, system_after = wide_system\<lparr>nruns := 1\<rparr>,
        cache_after = [''y'' \<mapsto> [3, 6]], results_after = [''y'' \<mapsto> [6, 18]]\<rparr>"
proof -
  have ok: "\<forall>t \<in> set wide_deltas. valid (inputs wide_system, outputs wide_system) t"
    by (simp add: wide_deltas_def wide_system_def)
  have ev: "(if ''total'' = ''total'' then summing_model else summing_model)
              (wide_system\<lparr>inputs := shift_inputs f64_add wide_deltas (outputs wide_system)
                                        (inputs wide_system),
                            outputs := shift_outputs f64_add wide_deltas (outputs wide_system)\<rparr>)
              = ([''y'' \<mapsto> [6, 18]], None)"
    by (simp add: wide_added summing_model_def)
  have i: "(\<lambda>name. if outputs wide_system name = None
                    then map_option (there_and_back f64_add f64_sub wide_deltas name)
                           (inputs wide_system name)
                    else inputs wide_system name) = inputs wide_system"
    by (rule ext) (simp add: wide_system_def wide_there_and_back)
  have o: "(\<lambda>name. map_option (there_and_back f64_add f64_sub wide_deltas name)
                      (outputs wide_system name)) = outputs wide_system"
    by (rule ext) (simp add: wide_system_def wide_there_and_back)
  have n: "nruns wide_system = 0" by (simp add: wide_system_def)
  show ?thesis
    using run_point_restores [where deriv_type = "''total''" and system = wide_system
        and input_deltas = wide_deltas and solve = summing_model and apply_nl = summing_model
        and add = f64_add and sub = f64_sub and v = "[''y'' \<mapsto> [6, 18]]"
        and cache = Map.empty and results = Map.empty, OF _ ok ev]
    by (simp add: i o n wide_added)
qed
section \<open>Properties of \<open>Jacobian\<close>\<close>

subsection \<open>Undeclared keys\<close>

lemma get_abs_key_frame: "subjacs_info (snd (get_abs_key system self key)) = subjacs_info self"
  by (simp add: get_abs_key_def split: option.splits)

text \<open>Whatever makes \<open>__setitem__\<close> raise, it raises before it writes.\<close>

lemma setitem_failure_frame:
  "fst (setitem system self key subjac) \<noteq> None \<Longrightarrow>
   subjacs_info (snd (setitem system self key subjac)) = subjacs_info self"
proof -
  obtain ak self1 where g: "get_abs_key system self key = (ak, self1)" by force
  have f: "subjacs_info self1 = subjacs_info self"
    using get_abs_key_frame[of system self key] g by simp
  assume "fst (setitem system self key subjac) \<noteq> None"
  then show ?thesis using g f
    by (auto simp: setitem_def Let_def
             split: option.splits subjac_val.splits sum.splits prod.splits if_splits)
qed

text \<open>
  Claim C7. For a key that \<open>__contains__\<close> does not find (the name pair resolves to no
  absolute key, or to one that was never declared), \<open>__getitem__\<close> and \<open>__setitem__\<close>
  both raise \<open>KeyError\<close>; a \<open>__setitem__\<close> that raises, for this or any other reason,
  leaves every stored sub-Jacobian as it was, and so does \<open>__getitem__\<close>.
\<close>

theorem undeclared_key_raises:
  "(\<not> fst (contains system self key) \<longrightarrow>
      fst (getitem system self key) = Inl KeyError \<and>
      fst (setitem system self key subjac) = Some KeyError) \<and>
   (fst (setitem system self key subjac) \<noteq> None \<longrightarrow>
      subjacs_info (snd (setitem system self key subjac)) = subjacs_info self) \<and>
   subjacs_info (snd (getitem system self key)) = subjacs_info self"
proof (intro conjI impI)
  assume nd: "\<not> fst (contains system self key)"
  obtain ak self1 where g: "get_abs_key system self key = (ak, self1)" by force
  show "fst (getitem system self key) = Inl KeyError"
    using nd g by (auto simp: contains_def getitem_def split: option.splits)
  show "fst (setitem system self key subjac) = Some KeyError"
    using nd g by (auto simp: contains_def setitem_def split: option.splits)
next
  assume "fst (setitem system self key subjac) \<noteq> None"
  then show "subjacs_info (snd (setitem system self key subjac)) = subjacs_info self"
    by (rule setitem_failure_frame)
next
  obtain ak self1 where g: "get_abs_key system self key = (ak, self1)" by force
  have f: "subjacs_info self1 = subjacs_info self"
    using get_abs_key_frame[of system self key] g by simp
  show "subjacs_info (snd (getitem system self key)) = subjacs_info self"
    using g f by (auto simp: getitem_def split: option.splits)
qed

theorem undeclared_key_raises_witness:
  "\<not> fst (contains ex_sys ex_jac (''g'', ''z'')) \<and>
   fst (getitem ex_sys ex_jac (''g'', ''z'')) = Inl KeyError \<and>
   fst (setitem ex_sys ex_jac (''g'', ''z'') (Nd \<lparr>shape = [], data = [1]\<rparr>)) = Some KeyError \<and>
   subjacs_info (snd (setitem ex_sys ex_jac (''g'', ''z'') (Nd \<lparr>shape = [], data = [1]\<rparr>)))
     = subjacs_info ex_jac"
proof -
  have nd: "\<not> fst (contains ex_sys ex_jac (''g'', ''z''))"
    by (simp add: contains_def get_abs_key_def ex_sys_def ex_jac_def)
  show ?thesis
    using nd undeclared_key_raises [of ex_sys ex_jac "(''g'', ''z'')" "Nd \<lparr>shape = [], data = [1]\<rparr>"]
    by simp
qed

subsection \<open>Setting a declared sub-Jacobian\<close>

text \<open>
  Claim C8, as the source has it. The block \<open>(g, x)\<close> is declared in COO format with
  two rows. A value of shape \<open>(1,)\<close> does not have the shape of \<open>rows\<close>, yet
  \<open>__setitem__\<close> raises nothing: numpy broadcasts the one element to both stored
  values.
\<close>

theorem setitem_sparse_broadcast_counterexample:
  "rows (the (subjacs_info ex_jac (''g'', ''x''))) = Some [0, 0] \<and>
   fst (setitem ex_sys ex_jac (''g'', ''x'') (Nd \<lparr>shape = [1], data = [7]\<rparr>)) = None \<and>
   map_option val (subjacs_info (snd (setitem ex_sys ex_jac (''g'', ''x'')
                                        (Nd \<lparr>shape = [1], data = [7]\<rparr>))) (''g'', ''x''))
     = Some (Nd \<lparr>shape = [2], data = [7, 7]\<rparr>)"
  by (simp add: setitem_def get_abs_key_def ex_sys_def ex_jac_def assign_val_def assign_all_def
        pad_ones_def broadcastable_def Let_def numeral_2_eq_2)

text \<open>
  Claim C8, amended. For a declared sub-Jacobian:
  \<^item> a scipy sparse value is stored as the new value as it is, with no check of its
    shape, whether the block is dense or has \<open>rows\<close> and \<open>cols\<close>;
  \<^item> an array set on a dense block (\<open>rows\<close> is \<open>None\<close>) whose stored array has the
    declared shape \<open>(m, n)\<close>: a scalar or a value of shape \<open>(1,)\<close> or \<open>(1, 1)\<close> is
    broadcast to all \<open>m n\<close> entries; any other array of \<open>m n\<close> elements is reshaped to
    \<open>(m, n)\<close> and stored; any other array of another size makes \<open>reshape\<close> raise
    \<open>ValueError\<close>;
  \<^item> an array set on a sparse block (\<open>rows\<close> present, one stored value for each):
    \<open>ValueError\<close> is raised exactly when numpy cannot broadcast the value to the
    shape \<open>(len(rows),)\<close>, that is unless the value is a scalar or all its dimensions
    are 1 but the last, which is 1 or \<open>len(rows)\<close>. A value with \<open>len(rows)\<close>
    elements is then copied, a value with one element is broadcast to all stored
    values without an error.
  A call that raises changes nothing but the cache of resolved keys.
\<close>

theorem setitem_shapes:
  assumes key: "get_abs_key system self key = (Some abs_key, self1)"
    and info: "subjacs_info self abs_key = Some info"
  shows
    "setitem system self key (Sp sp) =
       (None, self1\<lparr>subjacs_info := (subjacs_info self)(abs_key \<mapsto> info\<lparr>val := Sp sp\<rparr>)\<rparr>) \<and>
     (rows info = None \<and> val info = Nd v \<and> shape v = [m, n] \<and>
      abs_key2shape system abs_key = Inr (m, n) \<longrightarrow>
        ((shape a = [] \<or> shape a = [1] \<or> shape a = [1, 1]) \<and> data a = [x] \<longrightarrow>
           setitem system self key (Nd a) =
             (None, self1\<lparr>subjacs_info := (subjacs_info self)
                (abs_key \<mapsto> info\<lparr>val := Nd (v\<lparr>data := replicate (m * n) x\<rparr>)\<rparr>)\<rparr>)) \<and>
        (shape a \<noteq> [] \<and> shape a \<noteq> [1] \<and> shape a \<noteq> [1, 1] \<and> length (data a) = m * n \<longrightarrow>
           setitem system self key (Nd a) =
             (None, self1\<lparr>subjacs_info := (subjacs_info self)
                (abs_key \<mapsto> info\<lparr>val := Nd (v\<lparr>data := data a\<rparr>)\<rparr>)\<rparr>)) \<and>
        (shape a \<noteq> [] \<and> shape a \<noteq> [1] \<and> shape a \<noteq> [1, 1] \<and> length (data a) \<noteq> m * n \<longrightarrow>
           setitem system self key (Nd a) = (Some ValueError, self1))) \<and>
     (rows info = Some rs \<and> val info = Nd v \<and> shape v = [length rs] \<longrightarrow>
        (broadcasts_1d (length rs) (shape a) \<and> length (data a) = prod_list (shape a) \<longrightarrow>
           setitem system self key (Nd a) =
             (None, self1\<lparr>subjacs_info := (subjacs_info self)
                (abs_key \<mapsto> info\<lparr>val := Nd (v\<lparr>data :=
                   if shape a \<noteq> [] \<and> last (shape a) = length rs then data a
                   else replicate (length rs) (data a ! 0)\<rparr>)\<rparr>)\<rparr>)) \<and>
        (\<not> broadcasts_1d (length rs) (shape a) \<longrightarrow>
           setitem system self key (Nd a) = (Some ValueError, self1)))"
proof -
  have f: "subjacs_info self1 = subjacs_info self"
    using get_abs_key_frame[of system self key] key by simp
  have i1: "subjacs_info self1 abs_key = Some info" using info f by simp
  have two: "shape (atleast_2d a) \<noteq> [1, 1]"
    if "shape a \<noteq> [] \<and> shape a \<noteq> [1] \<and> shape a \<noteq> [1, 1]"
    using that by (auto simp: atleast_2d_def split: list.splits)
  show ?thesis
  proof (intro conjI impI)
    show "setitem system self key (Sp sp) =
       (None, self1\<lparr>subjacs_info := (subjacs_info self)(abs_key \<mapsto> info\<lparr>val := Sp sp\<rparr>)\<rparr>)"
      using key i1 f by (simp add: setitem_def)
  next
    assume d: "rows info = None \<and> val info = Nd v \<and> shape v = [m, n] \<and>
               abs_key2shape system abs_key = Inr (m, n)"
      and s: "(shape a = [] \<or> shape a = [1] \<or> shape a = [1, 1]) \<and> data a = [x]"
    have a2: "shape (atleast_2d a) = [1, 1]" "data (atleast_2d a) = [x]"
      using s by (auto simp: atleast_2d_def)
    have "assign_all v (atleast_2d a) = Inr (v\<lparr>data := replicate (m * n) x\<rparr>)"
      using a2 d by (intro assign_all_fill_2d) simp_all
    then show "setitem system self key (Nd a) =
             (None, self1\<lparr>subjacs_info := (subjacs_info self)
                (abs_key \<mapsto> info\<lparr>val := Nd (v\<lparr>data := replicate (m * n) x\<rparr>)\<rparr>)\<rparr>)"
      using key i1 d a2 f by (simp add: setitem_def Let_def assign_val_def)
  next
    assume d: "rows info = None \<and> val info = Nd v \<and> shape v = [m, n] \<and>
               abs_key2shape system abs_key = Inr (m, n)"
      and s0: "shape a \<noteq> [] \<and> shape a \<noteq> [1] \<and> shape a \<noteq> [1, 1] \<and> length (data a) = m * n"
    have s: "shape (atleast_2d a) \<noteq> [1, 1] \<and> length (data a) = m * n"
      using s0 two by simp
    have da: "data (atleast_2d a) = data a"
      by (simp add: atleast_2d_def split: list.splits)
    have rs: "reshape (atleast_2d a) [m, n] = Inr ((atleast_2d a)\<lparr>shape := [m, n]\<rparr>)"
      using s da by (simp add: reshape_def)
    have "assign_all v ((atleast_2d a)\<lparr>shape := [m, n]\<rparr>) = Inr (v\<lparr>data := data a\<rparr>)"
      using assign_all_same_2d[of "(atleast_2d a)\<lparr>shape := [m, n]\<rparr>" m n v] s d da by simp
    then show "setitem system self key (Nd a) =
             (None, self1\<lparr>subjacs_info := (subjacs_info self)
                (abs_key \<mapsto> info\<lparr>val := Nd (v\<lparr>data := data a\<rparr>)\<rparr>)\<rparr>)"
      using key i1 d s rs f by (simp add: setitem_def Let_def assign_val_def)
  next
    assume d: "rows info = None \<and> val info = Nd v \<and> shape v = [m, n] \<and>
               abs_key2shape system abs_key = Inr (m, n)"
      and s0: "shape a \<noteq> [] \<and> shape a \<noteq> [1] \<and> shape a \<noteq> [1, 1] \<and> length (data a) \<noteq> m * n"
    have s: "shape (atleast_2d a) \<noteq> [1, 1] \<and> length (data a) \<noteq> m * n"
      using s0 two by simp
    have da: "data (atleast_2d a) = data a"
      by (simp add: atleast_2d_def split: list.splits)
    have rs: "reshape (atleast_2d a) [m, n] = Inl ValueError"
      using s da by (simp add: reshape_def)
    show "setitem system self key (Nd a) = (Some ValueError, self1)"
      using key i1 d s rs by (simp add: setitem_def Let_def)
  next
    assume d: "rows info = Some rs \<and> val info = Nd v \<and> shape v = [length rs]"
      and s: "broadcasts_1d (length rs) (shape a) \<and> length (data a) = prod_list (shape a)"
    have "assign_all v a =
            Inr (v\<lparr>data := if shape a \<noteq> [] \<and> last (shape a) = length rs then data a
                           else replicate (length rs) (data a ! 0)\<rparr>)"
      using s d by (intro assign_all_1d_ok) simp_all
    then show "setitem system self key (Nd a) =
             (None, self1\<lparr>subjacs_info := (subjacs_info self)
                (abs_key \<mapsto> info\<lparr>val := Nd (v\<lparr>data :=
                   if shape a \<noteq> [] \<and> last (shape a) = length rs then data a
                   else replicate (length rs) (data a ! 0)\<rparr>)\<rparr>)\<rparr>)"
      using key i1 d f by (simp add: setitem_def Let_def assign_val_def)
  next
    assume d: "rows info = Some rs \<and> val info = Nd v \<and> shape v = [length rs]"
      and s: "\<not> broadcasts_1d (length rs) (shape a)"
    have "assign_all v a = Inl ValueError"
      using s d by (intro assign_all_1d_bad[of v "length rs"]) simp_all
    then show "setitem system self key (Nd a) = (Some ValueError, self1)"
      using key i1 d by (simp add: setitem_def Let_def assign_val_def)
  qed
qed

theorem setitem_shapes_witness:
  "setitem ex_sys ex_jac (''y'', ''x'') (Nd \<lparr>shape = [], data = [5]\<rparr>) =
     (None, ex_jac\<lparr>abs_keys := [(''y'', ''x'') \<mapsto> (''y'', ''x'')],
                  subjacs_info := (subjacs_info ex_jac)
                    ((''y'', ''x'') \<mapsto> the (subjacs_info ex_jac (''y'', ''x''))
                       \<lparr>val := Nd \<lparr>shape = [2, 2], data = replicate (2 * 2) 5\<rparr>\<rparr>)\<rparr>) \<and>
   setitem ex_sys ex_jac (''g'', ''x'') (Nd \<lparr>shape = [3], data = [1, 2, 3]\<rparr>) =
     (Some ValueError, ex_jac\<lparr>abs_keys := [(''g'', ''x'') \<mapsto> (''g'', ''x'')]\<rparr>) \<and>
   setitem ex_sys ex_jac (''g'', ''x'') (Nd \<lparr>shape = [2, 1], data = [1, 2]\<rparr>) =
     (Some ValueError, ex_jac\<lparr>abs_keys := [(''g'', ''x'') \<mapsto> (''g'', ''x'')]\<rparr>) \<and>
   setitem ex_sys ex_jac (''g'', ''x'') (Nd \<lparr>shape = [1, 2], data = [8, 9]\<rparr>) =
     (None, ex_jac\<lparr>abs_keys := [(''g'', ''x'') \<mapsto> (''g'', ''x'')],
                  subjacs_info := (subjacs_info ex_jac)
                    ((''g'', ''x'') \<mapsto> the (subjacs_info ex_jac (''g'', ''x''))
                       \<lparr>val := Nd \<lparr>shape = [2], data = [8, 9]\<rparr>\<rparr>)\<rparr>) \<and>
   setitem ex_sys ex_jac (''g'', ''x'') (Sp ex_sp) =
     (None, ex_jac\<lparr>abs_keys := [(''g'', ''x'') \<mapsto> (''g'', ''x'')],
                  subjacs_info := (subjacs_info ex_jac)
                    ((''g'', ''x'') \<mapsto> the (subjacs_info ex_jac (''g'', ''x''))\<lparr>val := Sp ex_sp\<rparr>)\<rparr>)"
proof -
  have k1: "get_abs_key ex_sys ex_jac (''y'', ''x'')
              = (Some (''y'', ''x''), ex_jac\<lparr>abs_keys := [(''y'', ''x'') \<mapsto> (''y'', ''x'')]\<rparr>)"
    by (simp add: get_abs_key_def ex_sys_def ex_jac_def)
  have i1: "subjacs_info ex_jac (''y'', ''x'') =
              Some \<lparr>rows = None, cols = None, val = Nd \<lparr>shape = [2, 2], data = [0, 0, 0, 0]\<rparr>,
                    dependent = True, sparsity = None\<rparr>"
    by (simp add: ex_jac_def)
  have s1: "abs_key2shape ex_sys (''y'', ''x'') = Inr (2, 2)"
    by (simp add: abs_key2shape_def ex_sys_def)
  have k2: "get_abs_key ex_sys ex_jac (''g'', ''x'')
              = (Some (''g'', ''x''), ex_jac\<lparr>abs_keys := [(''g'', ''x'') \<mapsto> (''g'', ''x'')]\<rparr>)"
    by (simp add: get_abs_key_def ex_sys_def ex_jac_def)
  have i2: "subjacs_info ex_jac (''g'', ''x'') =
              Some \<lparr>rows = Some [0, 0], cols = Some [0, 1], val = Nd \<lparr>shape = [2], data = [0, 0]\<rparr>,
                    dependent = True, sparsity = None\<rparr>"
    by (simp add: ex_jac_def)
  have d: "setitem ex_sys ex_jac (''y'', ''x'') (Nd \<lparr>shape = [], data = [5]\<rparr>) =
     (None, ex_jac\<lparr>abs_keys := [(''y'', ''x'') \<mapsto> (''y'', ''x'')],
                  subjacs_info := (subjacs_info ex_jac)
                    ((''y'', ''x'') \<mapsto> the (subjacs_info ex_jac (''y'', ''x''))
                       \<lparr>val := Nd \<lparr>shape = [2, 2], data = replicate (2 * 2) 5\<rparr>\<rparr>)\<rparr>)"
    using setitem_shapes [OF k1 i1, where v = "\<lparr>shape = [2, 2], data = [0, 0, 0, 0]\<rparr>"
        and m = 2 and n = 2 and a = "\<lparr>shape = [], data = [5]\<rparr>" and x = 5] s1 i1
    by simp
  have s: "setitem ex_sys ex_jac (''g'', ''x'') (Nd \<lparr>shape = [3], data = [1, 2, 3]\<rparr>) =
     (Some ValueError, ex_jac\<lparr>abs_keys := [(''g'', ''x'') \<mapsto> (''g'', ''x'')]\<rparr>)"
    using setitem_shapes [OF k2 i2, where v = "\<lparr>shape = [2], data = [0, 0]\<rparr>"
        and a = "\<lparr>shape = [3], data = [1, 2, 3]\<rparr>" and rs = "[0, 0]"]
    by (simp add: broadcasts_1d_def)
  have t: "setitem ex_sys ex_jac (''g'', ''x'') (Nd \<lparr>shape = [2, 1], data = [1, 2]\<rparr>) =
     (Some ValueError, ex_jac\<lparr>abs_keys := [(''g'', ''x'') \<mapsto> (''g'', ''x'')]\<rparr>)"
    using setitem_shapes [OF k2 i2, where v = "\<lparr>shape = [2], data = [0, 0]\<rparr>"
        and a = "\<lparr>shape = [2, 1], data = [1, 2]\<rparr>" and rs = "[0, 0]"]
    by (simp add: broadcasts_1d_def)
  have c: "setitem ex_sys ex_jac (''g'', ''x'') (Nd \<lparr>shape = [1, 2], data = [8, 9]\<rparr>) =
     (None, ex_jac\<lparr>abs_keys := [(''g'', ''x'') \<mapsto> (''g'', ''x'')],
                  subjacs_info := (subjacs_info ex_jac)
                    ((''g'', ''x'') \<mapsto> the (subjacs_info ex_jac (''g'', ''x''))
                       \<lparr>val := Nd \<lparr>shape = [2], data = [8, 9]\<rparr>\<rparr>)\<rparr>)"
    using setitem_shapes [OF k2 i2, where v = "\<lparr>shape = [2], data = [0, 0]\<rparr>"
        and a = "\<lparr>shape = [1, 2], data = [8, 9]\<rparr>" and rs = "[0, 0]"] i2
    by (simp add: broadcasts_1d_def)
  have p: "setitem ex_sys ex_jac (''g'', ''x'') (Sp ex_sp) =
     (None, ex_jac\<lparr>abs_keys := [(''g'', ''x'') \<mapsto> (''g'', ''x'')],
                  subjacs_info := (subjacs_info ex_jac)
                    ((''g'', ''x'') \<mapsto> the (subjacs_info ex_jac (''g'', ''x''))\<lparr>val := Sp ex_sp\<rparr>)\<rparr>)"
    using setitem_shapes [OF k2 i2, where sp = ex_sp] i2
    by simp
  show ?thesis using d s t c p by simp
qed

subsection \<open>Randomized sub-Jacobians\<close>

text \<open>
  Claim C4, as the source has it. The scipy test comes first: for a sub-Jacobian that
  is a scipy matrix, a recorded sparsity is not looked at. Here the metadata records
  the one coordinate \<open>(0, 0)\<close>, and the stored entry at \<open>(1, 1)\<close> is randomized as well.
\<close>

theorem randomize_counterexample:
  "sparsity (the (subjacs_info ex_jac_sparsity (''y'', ''x''))) = Some ([0], [0], 2, 2) \<and>
   fst (randomize_subjac ex_jac_sparsity half_gen (Sp ex_sp) (''y'', ''x''))
     = Inr (Sp \<lparr>sp_shape = (2, 2), sp_coords = [(0, 0), (1, 1)], sp_data = [3 / 2, 3 / 2]\<rparr>)"
  by (simp add: randomize_subjac_def random_def half_gen_def ex_sp_def ex_jac_sparsity_def
        numeral_2_eq_2 f64_add_half_one)

text \<open>
  The values are not below 2 in every case either: the largest draw below 1 plus 1.0
  is rounded to 2.0.
\<close>

lemma randomize_largest_draw:
  "fst (randomize_subjac ex_jac_sparsity largest_gen (Nd \<lparr>shape = [2, 1], data = [0, 0]\<rparr>)
         (''y'', ''z'')) = Inr (Nd \<lparr>shape = [2, 1], data = [0, 2]\<rparr>)"
  by (simp add: randomize_subjac_def random_def largest_gen_def ex_jac_sparsity_def
        set_coords_def index_pairs_def f64_add_largest_draw numeral_2_eq_2)

text \<open>
  Claim C4, amended. With draws in \<open>[0, 1)\<close>, and a draw plus 1.0 being the sum of
  doubles, which lies in \<open>[1, 2]\<close> (2 for the largest draw) and is not 0:
  \<^item> for a sub-Jacobian that is a scipy matrix, whether a sparsity is recorded or
    not, the result has the same stored coordinates and every stored value is a draw
    plus 1.0;
  \<^item> for an array whose metadata records a sparsity \<open>(rows, cols, (m, n))\<close> with
    coordinates inside the shape, the result is an \<open>m\<close> by \<open>n\<close> array that is 0
    outside the recorded coordinates and, at each of them, a draw plus 1.0;
  \<^item> for an array without a recorded sparsity, the result has the shape of the
    array and every entry is a draw plus 1.0.
\<close>

theorem randomize_subjac_values:
  assumes draws: "\<forall>i. 0 \<le> g i \<and> g i < 1"
  shows
    "(\<forall>sparse. subjac = Sp sparse \<longrightarrow>
        (\<exists>d. fst (randomize_subjac self g subjac key) = Inr (Sp (sparse\<lparr>sp_data := d\<rparr>)) \<and>
             length d = length (sp_data sparse) \<and>
             (\<forall>k < length d. d ! k = f64_add (g k) 1 \<and> 1 \<le> d ! k \<and> d ! k \<le> 2))) \<and>
     (\<forall>a info rs cs m n.
        subjac = Nd a \<and> subjacs_info self key = Some info \<and> sparsity info = Some (rs, cs, m, n) \<and>
        length rs = length cs \<and> (\<forall>(r, c) \<in> set (zip rs cs). r < m \<and> c < n) \<longrightarrow>
        (\<exists>d. fst (randomize_subjac self g subjac key) = Inr (Nd \<lparr>shape = [m, n], data = d\<rparr>) \<and>
             length d = m * n \<and>
             (\<forall>i < m. \<forall>j < n.
                if (i, j) \<in> set (zip rs cs)
                then (\<exists>k < length rs. rs ! k = i \<and> cs ! k = j \<and> d ! (i * n + j) = f64_add (g k) 1) \<and>
                     1 \<le> d ! (i * n + j) \<and> d ! (i * n + j) \<le> 2
                else d ! (i * n + j) = 0))) \<and>
     (\<forall>a info.
        subjac = Nd a \<and> subjacs_info self key = Some info \<and> sparsity info = None \<longrightarrow>
        (\<exists>d. fst (randomize_subjac self g subjac key) = Inr (Nd \<lparr>shape = shape a, data = d\<rparr>) \<and>
             length d = prod_list (shape a) \<and>
             (\<forall>k < length d. d ! k = f64_add (g k) 1 \<and> 1 \<le> d ! k \<and> d ! k \<le> 2)))"
proof (intro conjI allI impI)
  fix sparse assume "subjac = Sp sparse"
  then show "\<exists>d. fst (randomize_subjac self g subjac key) = Inr (Sp (sparse\<lparr>sp_data := d\<rparr>)) \<and>
             length d = length (sp_data sparse) \<and>
             (\<forall>k < length d. d ! k = f64_add (g k) 1 \<and> 1 \<le> d ! k \<and> d ! k \<le> 2)"
    using draws
    by (intro exI[of _ "map (\<lambda>x. f64_add x 1) (map g [0..<length (sp_data sparse)])"])
       (simp add: randomize_subjac_def random_def f64_add_one_bounds)
next
  fix a info rs cs m n
  assume h: "subjac = Nd a \<and> subjacs_info self key = Some info \<and> sparsity info = Some (rs, cs, m, n) \<and>
        length rs = length cs \<and> (\<forall>(r, c) \<in> set (zip rs cs). r < m \<and> c < n)"
  let ?pos = "map (\<lambda>(r, c). r * n + c) (zip rs cs)"
  let ?vs = "map (\<lambda>x. f64_add x 1) (map g [0..<length rs])"
  let ?d = "scatter (zip ?pos ?vs) (replicate (m * n) 0)"
  have ip: "index_pairs rs cs = Inr (zip rs cs)" using h by (simp add: index_pairs_def)
  have sc: "set_coords (m, n) (replicate (m * n) 0) rs cs ?vs = Inr ?d"
    using ip h by (simp add: set_coords_def)
  have res: "fst (randomize_subjac self g subjac key) = Inr (Nd \<lparr>shape = [m, n], data = ?d\<rparr>)"
    using h sc by (simp add: randomize_subjac_def random_def)
  have lp: "length ?pos = length rs" "length ?vs = length rs" using h by simp_all
  have fstset: "fst ` set (zip ?pos ?vs) = set ?pos"
    using lp by (metis map_fst_zip set_map)
  have cell: "\<forall>i < m. \<forall>j < n.
                if (i, j) \<in> set (zip rs cs)
                then (\<exists>k < length rs. rs ! k = i \<and> cs ! k = j \<and> ?d ! (i * n + j) = f64_add (g k) 1) \<and>
                     1 \<le> ?d ! (i * n + j) \<and> ?d ! (i * n + j) \<le> 2
                else ?d ! (i * n + j) = 0"
  proof (intro allI impI)
    fix i j assume i: "i < m" and j: "j < n"
    have "i * n + j < i * n + n" using j by simp
    also have "\<dots> = Suc i * n" by simp
    also have "\<dots> \<le> m * n" using i by (intro mult_le_mono1) simp
    finally have p: "i * n + j < length (replicate (m * n) (0::real))" by simp
    show "if (i, j) \<in> set (zip rs cs)
          then (\<exists>k < length rs. rs ! k = i \<and> cs ! k = j \<and> ?d ! (i * n + j) = f64_add (g k) 1) \<and>
               1 \<le> ?d ! (i * n + j) \<and> ?d ! (i * n + j) \<le> 2
          else ?d ! (i * n + j) = 0"
    proof (cases "(i, j) \<in> set (zip rs cs)")
      case True
      then have "i * n + j \<in> set ?pos" by force
      then have "(i * n + j, ?d ! (i * n + j)) \<in> set (zip ?pos ?vs)"
        using fstset p by (intro scatter_nth_mem) simp_all
      then obtain k where k: "k < length rs" "?pos ! k = i * n + j" "?vs ! k = ?d ! (i * n + j)"
        using lp by (auto simp: in_set_zip)
      have "(rs ! k, cs ! k) \<in> set (zip rs cs)"
        using h k(1) by (auto simp: set_zip)
      then have ck: "cs ! k < n" using h by blast
      have "rs ! k * n + cs ! k = i * n + j" using k h by simp
      then have rc: "rs ! k = i \<and> cs ! k = j" using flat_index_inj[OF ck j] by simp
      have val: "?d ! (i * n + j) = f64_add (g k) 1" using k by simp
      have "1 \<le> f64_add (g k) 1 \<and> f64_add (g k) 1 \<le> 2" using draws by (simp add: f64_add_one_bounds)
      then show ?thesis using True k(1) rc val by auto
    next
      case False
      have "i * n + j \<notin> set ?pos"
      proof
        assume "i * n + j \<in> set ?pos"
        then obtain r c where rc: "(r, c) \<in> set (zip rs cs)" "r * n + c = i * n + j" by auto
        then have "c < n" using h by auto
        then have "r = i \<and> c = j" using flat_index_inj[OF _ j rc(2)] by simp
        then show False using rc(1) False by simp
      qed
      then have "?d ! (i * n + j) = replicate (m * n) 0 ! (i * n + j)"
        using fstset by (intro scatter_nth_notin) simp
      then show ?thesis using False p by simp
    qed
  qed
  show "\<exists>d. fst (randomize_subjac self g subjac key) = Inr (Nd \<lparr>shape = [m, n], data = d\<rparr>) \<and>
             length d = m * n \<and>
             (\<forall>i < m. \<forall>j < n.
                if (i, j) \<in> set (zip rs cs)
                then (\<exists>k < length rs. rs ! k = i \<and> cs ! k = j \<and> d ! (i * n + j) = f64_add (g k) 1) \<and>
                     1 \<le> d ! (i * n + j) \<and> d ! (i * n + j) \<le> 2
                else d ! (i * n + j) = 0)"
    using res cell by (intro exI[of _ ?d]) simp
next
  fix a info
  assume "subjac = Nd a \<and> subjacs_info self key = Some info \<and> sparsity info = None"
  then show "\<exists>d. fst (randomize_subjac self g subjac key) = Inr (Nd \<lparr>shape = shape a, data = d\<rparr>) \<and>
             length d = prod_list (shape a) \<and>
             (\<forall>k < length d. d ! k = f64_add (g k) 1 \<and> 1 \<le> d ! k \<and> d ! k \<le> 2)"
    using draws
    by (intro exI[of _ "map (\<lambda>x. f64_add x 1) (map g [0..<prod_list (shape a)])"])
       (simp add: randomize_subjac_def random_def f64_add_one_bounds)
qed

theorem randomize_subjac_values_witness:
  "(\<forall>i. 0 \<le> half_gen i \<and> half_gen i < 1) \<and>
   (\<exists>d. fst (randomize_subjac ex_jac_sparsity half_gen (Nd \<lparr>shape = [2, 1], data = [0, 0]\<rparr>)
               (''y'', ''z'')) = Inr (Nd \<lparr>shape = [2, 1], data = d\<rparr>) \<and>
        length d = 2 \<and> d ! 0 = 0 \<and> 1 \<le> d ! 1 \<and> d ! 1 \<le> 2)"
proof -
  have dr: "\<forall>i. 0 \<le> half_gen i \<and> half_gen i < 1" by (simp add: half_gen_def)
  have i: "subjacs_info ex_jac_sparsity (''y'', ''z'') =
             Some \<lparr>rows = None, cols = None, val = Nd \<lparr>shape = [2, 1], data = [0, 0]\<rparr>,
                   dependent = True, sparsity = Some ([1], [0], 2, 1)\<rparr>"
    by (simp add: ex_jac_sparsity_def)
  have "\<exists>d. fst (randomize_subjac ex_jac_sparsity half_gen (Nd \<lparr>shape = [2, 1], data = [0, 0]\<rparr>)
                    (''y'', ''z'')) = Inr (Nd \<lparr>shape = [2, 1], data = d\<rparr>) \<and>
             length d = 2 * 1 \<and>
             (\<forall>i < 2. \<forall>j < 1.
                if (i, j) \<in> set (zip [1] [0])
                then (\<exists>k < length [1::nat]. [1] ! k = i \<and> [0] ! k = j \<and> d ! (i * 1 + j) = f64_add (half_gen k) 1) \<and>
                     1 \<le> d ! (i * 1 + j) \<and> d ! (i * 1 + j) \<le> 2
                else d ! (i * 1 + j) = 0)"
    by (rule randomize_subjac_values [OF dr, THEN conjunct2, THEN conjunct1, rule_format,
          where info = "\<lparr>rows = None, cols = None, val = Nd \<lparr>shape = [2, 1], data = [0, 0]\<rparr>,
                         dependent = True, sparsity = Some ([1], [0], 2, 1)\<rparr>"
            and a = "\<lparr>shape = [2, 1], data = [0, 0]\<rparr>"])
       (simp add: i)
  then obtain d where d: "fst (randomize_subjac ex_jac_sparsity half_gen (Nd \<lparr>shape = [2, 1], data = [0, 0]\<rparr>)
                    (''y'', ''z'')) = Inr (Nd \<lparr>shape = [2, 1], data = d\<rparr>)" "length d = 2 * 1"
      "\<forall>i < 2. \<forall>j < 1.
                if (i, j) \<in> set (zip [1] [0])
                then (\<exists>k < length [1::nat]. [1] ! k = i \<and> [0] ! k = j \<and> d ! (i * 1 + j) = f64_add (half_gen k) 1) \<and>
                     1 \<le> d ! (i * 1 + j) \<and> d ! (i * 1 + j) \<le> 2
                else d ! (i * 1 + j) = 0"
    by blast
  have "d ! 0 = 0" using d(3)[rule_format, of 0 0] by simp
  moreover have "1 \<le> d ! 1 \<and> d ! 1 \<le> 2" using d(3)[rule_format, of 1 0] by simp
  ultimately show ?thesis using dr d(1,2) by auto
qed

subsection \<open>The index maps\<close>










lemma setup_index_maps_frame:
  "subjacs_info (snd (setup_index_maps system self)) = subjacs_info self"
  by (simp add: setup_index_maps_def Let_def)

subsection \<open>One block\<close>




subsection \<open>\<open>set_col\<close>\<close>




section \<open>Properties of \<open>PETScVector\<close>\<close>

subsection \<open>One process\<close>

text \<open>The duplicate indices that are collected are the duplicate positions.\<close>

lemma collect_dups_set:
  "\<forall>(name, start, stop) \<in> set rngs. name \<in> dom (owning_rank system) \<and> name \<in> dom (var_distributed system) \<Longrightarrow>
   \<exists>dups. collect_dups system rngs = Inr dups \<and> set dups = {i. is_dup system rngs i}"
proof (induction rngs)
  case Nil
  then show ?case by (simp add: is_dup_def)
next
  case (Cons t rngs)
  obtain name start stop where t: "t = (name, start, stop)" by (cases t)
  obtain owner dist where od: "owning_rank system name = Some owner" "var_distributed system name = Some dist"
    using Cons.prems t by auto
  obtain ds where ds: "collect_dups system rngs = Inr ds" "set ds = {i. is_dup system rngs i}"
    using Cons by auto
  have "set ((if \<not> dist \<and> owner \<noteq> comm_rank system then [start..<stop] else []) @ ds)
          = {i. is_dup system (t # rngs) i}"
    using ds(2) od t by (auto simp: is_dup_def)
  then show ?case using t od ds(1) by simp
qed

lemma scatter_zero:
  "\<forall>i \<in> set idxs. i < length a \<Longrightarrow>
   scatter (map (\<lambda>i. (i, 0)) idxs) a = map (\<lambda>i. if i \<in> set idxs then 0 else a ! i) [0..<length a]"
proof -
  have "map (\<lambda>i. (i, 0::'a)) idxs = zip idxs (map (\<lambda>i. 0) idxs)"
    by (induction idxs) simp_all
  then show ?thesis
    by (intro nth_equalityI) (simp_all add: scatter_zip_map)
qed

lemma is_dup_bound:
  "is_dup system rngs i \<Longrightarrow> \<forall>(name, start, stop) \<in> set rngs. stop \<le> n \<Longrightarrow> i < n"
  by (fastforce simp: is_dup_def)

lemma sum_list_masked:
  "sum_list (map (\<lambda>i. (if P i then 0 else f i) * g i) xs)
     = sum_list (map (\<lambda>i. f i * (g i :: real)) (filter (\<lambda>i. \<not> P i) xs))"
  by (induction xs) simp_all

lemma sum_squares_masked:
  "sum_list (map (\<lambda>x. x ^ 2) (map (\<lambda>i. if P i then 0 else f i) xs))
     = sum_list (map (\<lambda>i. (f i :: real) ^ 2) (filter (\<lambda>i. \<not> P i) xs))"
  by (induction xs) simp_all

lemma sum_products_masked:
  "length b = n \<Longrightarrow>
   sum_list (map2 (*) (map (\<lambda>i. if P i then 0 else f i) [0..<n]) b)
     = sum_list (map (\<lambda>i. f i * (b ! i :: real)) (filter (\<lambda>i. \<not> P i) [0..<n]))"
proof -
  assume len: "length b = n"
  have "map2 (*) (map (\<lambda>i. if P i then 0 else f i) [0..<n]) b
          = map (\<lambda>i. (if P i then 0 else f i) * b ! i) [0..<n]"
    using len by (intro nth_equalityI) simp_all
  then show ?thesis by (simp add: sum_list_masked)
qed

lemma wf_layout_rank:
  "wf_layout (system\<lparr>comm_size := n, comm_rank := r\<rparr>) d rngs = wf_layout system d rngs"
  by (simp add: wf_layout_def)

lemma is_dup_size: "is_dup (system\<lparr>comm_size := n, comm_rank := r\<rparr>) = is_dup (system\<lparr>comm_rank := r\<rparr>)"
  by (intro ext) (simp add: is_dup_def)

text \<open>
  \<open>_get_nodup\<close> yields the data with the duplicate positions set to 0, and the data
  array itself is as before.
\<close>

lemma init_then_nodup:
  assumes wf: "wf_layout system d rngs" and size: "1 < comm_size system"
  shows "\<exists>v v'. init_dup_inds system (new_vector d rngs) = Inr v \<and> vec_data v = d \<and>
            get_nodup v = (Inr (map (\<lambda>i. if is_dup system rngs i then 0 else d ! i) [0..<length d]), v') \<and>
            vec_data v' = d"
proof -
  have names: "\<forall>(name, start, stop) \<in> set rngs.
      name \<in> dom (owning_rank system) \<and> name \<in> dom (var_distributed system)"
    using wf by (auto simp: wf_layout_def)
  have stops: "\<forall>(name, start, stop) \<in> set rngs. stop \<le> length d"
    using wf by (auto simp: wf_layout_def)
  have lst: "snd (snd (last rngs)) = length d" using wf by (simp add: wf_layout_def)
  obtain dups where dups: "collect_dups system rngs = Inr dups" "set dups = {i. is_dup system rngs i}"
    using collect_dups_set[OF names] by blast
  show ?thesis
  proof (cases "dups = []")
    case True
    let ?v = "(new_vector d rngs)\<lparr>dup_inds := dups\<rparr>"
    have i: "init_dup_inds system (new_vector d rngs) = Inr ?v"
      using size dups(1) True by (simp add: init_dup_inds_def new_vector_def)
    have nodup: "\<And>i. \<not> is_dup system rngs i" using dups(2) True by auto
    have "map (\<lambda>i. if is_dup system rngs i then 0 else d ! i) [0..<length d] = d"
      using nodup by (simp add: map_nth)
    then have "get_nodup ?v
        = (Inr (map (\<lambda>i. if is_dup system rngs i then 0 else d ! i) [0..<length d]), ?v)"
      using True by (simp add: get_nodup_def new_vector_def)
    then show ?thesis using i by (intro exI[of _ ?v]) (simp add: new_vector_def)
  next
    case False
    let ?v = "(new_vector d rngs)\<lparr>dup_inds := dups, dup_scratch := Some (replicate (length d) 0)\<rparr>"
    have i: "init_dup_inds system (new_vector d rngs) = Inr ?v"
      using size dups(1) False lst by (simp add: init_dup_inds_def new_vector_def)
    have bound: "\<forall>i \<in> set dups. i < length d"
      using dups(2) is_dup_bound[OF _ stops] by auto
    let ?out = "map (\<lambda>i. if is_dup system rngs i then 0 else d ! i) [0..<length d]"
    have sc: "scatter (map (\<lambda>i. (i, 0)) dups) d = ?out"
      using scatter_zero[OF bound] dups(2) by simp
    have "get_nodup ?v = (Inr ?out, ?v\<lparr>dup_scratch := Some ?out\<rparr>)"
      using False bound sc by (simp add: get_nodup_def new_vector_def Let_def)
    then show ?thesis using i
      by (intro exI[of _ ?v] exI[of _ "?v\<lparr>dup_scratch := Some ?out\<rparr>"]) (simp add: new_vector_def)
  qed
qed

subsection \<open>All processes\<close>

lemma gather_map_Inr:
  "(\<And>x. x \<in> set xs \<Longrightarrow> f x = Inr (g x)) \<Longrightarrow> gather (map f xs) = Inr (map g xs)"
  by (induction xs) simp_all

lemma ex_contributions:
  "norm_contribution ex_mpi (0, [3, 4], [(''a'', 0, 1), (''b'', 1, 2)]) = 25"
  "norm_contribution ex_mpi (1, [4, 12], [(''b'', 0, 1), (''c'', 1, 2)]) = 144"
  "dot_contribution ex_mpi ((0, [3, 4], [(''a'', 0, 1), (''b'', 1, 2)]), [1, 1]) = 7"
  "dot_contribution ex_mpi ((1, [4, 12], [(''b'', 0, 1), (''c'', 1, 2)]), [1, 1]) = 12"
  by (simp_all add: norm_contribution_def dot_contribution_def owned_inds_def is_dup_def ex_mpi_def)

subsection \<open>The de-duplicated full vector\<close>

text \<open>
  With ranges that follow one another, the locally owned entries of a process are
  the entries of its ranges that are not duplicates; summed over the processes and
  regrouped by variable, they are the entries of the de-duplicated full vector.
\<close>

lemma contiguous_starts:
  "contiguous_from s rngs \<Longrightarrow> \<forall>(name, start, stop) \<in> set rngs. s \<le> start"
proof (induction rngs arbitrary: s)
  case Nil
  then show ?case by simp
next
  case (Cons t rngs)
  obtain name start stop where t: "t = (name, start, stop)" by (cases t)
  have c: "start = s" "start \<le> stop" "contiguous_from stop rngs" using Cons.prems t by simp_all
  have "\<forall>(name, a, b) \<in> set rngs. stop \<le> a" using Cons.IH[OF c(3)] .
  then show ?case using c t by fastforce
qed

lemma contiguous_end:
  "contiguous_from s rngs \<Longrightarrow> s \<le> (if rngs = [] then s else snd (snd (last rngs)))"
proof (induction rngs arbitrary: s)
  case Nil
  then show ?case by simp
next
  case (Cons t rngs)
  obtain name start stop where t: "t = (name, start, stop)" by (cases t)
  have c: "start = s" "start \<le> stop" "contiguous_from stop rngs" using Cons.prems t by simp_all
  show ?case using Cons.IH[OF c(3)] c t by (auto split: if_splits)
qed

lemma sum_list_filter_cong:
  "(\<And>i. i \<in> set xs \<Longrightarrow> P i = Q i) \<Longrightarrow>
   sum_list (map f (filter P xs)) = sum_list (map f (filter Q xs))"
  by (induction xs) auto

lemma tiled_sum:
  fixes f :: "nat \<Rightarrow> real"
  shows "contiguous_from s rngs \<Longrightarrow>
   sum_list (map f (filter (\<lambda>i. \<not> is_dup system rngs i)
                      [s..<(if rngs = [] then s else snd (snd (last rngs)))]))
     = sum_list (map (\<lambda>t. if dup_var system (fst t) then 0
                           else sum_list (map f [fst (snd t)..<snd (snd t)])) rngs)"
proof (induction rngs arbitrary: s)
  case Nil
  then show ?case by simp
next
  case (Cons t rngs)
  obtain name start stop where t: "t = (name, start, stop)" by (cases t)
  have c: "start = s" "start \<le> stop" "contiguous_from stop rngs" using Cons.prems t by simp_all
  let ?n = "if rngs = [] then stop else snd (snd (last rngs))"
  have le: "stop \<le> ?n" using contiguous_end[OF c(3)] .
  have n: "(if t # rngs = [] then s else snd (snd (last (t # rngs)))) = ?n"
    using t by simp
  have split: "[s..<?n] = [s..<stop] @ [stop..<?n]"
    using c le by (metis le_Suc_ex upt_add_eq_append)
  have starts: "\<forall>(name, a, b) \<in> set rngs. stop \<le> a" using contiguous_starts[OF c(3)] .
  have low: "is_dup system (t # rngs) i = dup_var system name" if "i \<in> set [s..<stop]" for i
  proof -
    have "\<not> is_dup system rngs i" using starts that by (fastforce simp: is_dup_def)
    then show ?thesis using that c t by (auto simp: is_dup_def dup_var_def)
  qed
  have high: "is_dup system (t # rngs) i = is_dup system rngs i" if "i \<in> set [stop..<?n]" for i
    using that c t by (auto simp: is_dup_def)
  have a: "sum_list (map f (filter (\<lambda>i. \<not> is_dup system (t # rngs) i) [s..<stop]))
             = (if dup_var system name then 0 else sum_list (map f [s..<stop]))"
  proof -
    have "sum_list (map f (filter (\<lambda>i. \<not> is_dup system (t # rngs) i) [s..<stop]))
            = sum_list (map f (filter (\<lambda>i. \<not> dup_var system name) [s..<stop]))"
      using low by (intro sum_list_filter_cong) simp
    then show ?thesis by simp
  qed
  have b: "sum_list (map f (filter (\<lambda>i. \<not> is_dup system (t # rngs) i) [stop..<?n]))
             = sum_list (map f (filter (\<lambda>i. \<not> is_dup system rngs i) [stop..<?n]))"
    using high by (intro sum_list_filter_cong) simp
  show ?case
    unfolding n split filter_append map_append sum_list_append a b Cons.IH[OF c(3)]
    using t c by simp
qed

lemma sum_squares_slice:
  "stop \<le> length d \<Longrightarrow>
   sum_list (map (\<lambda>x. x ^ 2) (py_slice d start stop)) = sum_list (map (\<lambda>i. (d ! i :: real) ^ 2) [start..<stop])"
proof -
  assume le: "stop \<le> length d"
  have "py_slice d start stop = map (\<lambda>i. d ! i) [start..<stop]"
    using le by (intro nth_equalityI) (simp_all add: py_slice_def)
  then show ?thesis by (simp add: comp_def)
qed


lemma sum_list_swap:
  fixes g :: "'a \<Rightarrow> 'b \<Rightarrow> real"
  shows "sum_list (map (\<lambda>k. sum_list (map (\<lambda>x. g k x) xs)) ks)
           = sum_list (map (\<lambda>x. sum_list (map (\<lambda>k. g k x) ks)) xs)"
  by (induction ks) (simp_all add: sum_list_addf)

lemma sum_list_delta:
  fixes c :: real
  shows "distinct ks \<Longrightarrow> a \<in> set ks \<Longrightarrow> sum_list (map (\<lambda>k. if a = k then c else 0) ks) = c"
proof (induction ks)
  case Nil
  then show ?case by simp
next
  case (Cons k ks)
  show ?case
  proof (cases "a = k")
    case True
    then have "a \<notin> set ks" using Cons.prems by simp
    then have "sum_list (map (\<lambda>k. if a = k then c else 0) ks) = 0"
      by (induction ks) auto
    then show ?thesis using True by simp
  next
    case False
    then show ?thesis using Cons by simp
  qed
qed

lemma sum_list_regroup:
  fixes f :: "'a \<Rightarrow> real"
  assumes "distinct ks" and "\<forall>x \<in> set xs. key x \<in> set ks"
  shows "sum_list (map (\<lambda>k. sum_list (map (\<lambda>x. if key x = k then f x else 0) xs)) ks)
           = sum_list (map f xs)"
proof -
  have "sum_list (map (\<lambda>k. sum_list (map (\<lambda>x. if key x = k then f x else 0) xs)) ks)
          = sum_list (map (\<lambda>x. sum_list (map (\<lambda>k. if key x = k then f x else 0) ks)) xs)"
    by (rule sum_list_swap)
  also have "\<dots> = sum_list (map f xs)"
    using assms by (intro arg_cong[where f = sum_list] map_cong refl sum_list_delta) auto
  finally show ?thesis .
qed

lemma sum_list_enumerate_select:
  fixes G :: "'a \<Rightarrow> real"
  shows "sum_list (map (\<lambda>x. if fst x = r then G (snd x) else 0) (enumerate k xs))
           = (if k \<le> r \<and> r < k + length xs then G (xs ! (r - k)) else 0)"
proof (induction xs arbitrary: k)
  case Nil
  then show ?case by simp
next
  case (Cons x xs)
  show ?case
  proof (cases "k = r")
    case True
    have "sum_list (map (\<lambda>x. if fst x = r then G (snd x) else 0) (enumerate (Suc k) xs)) = 0"
      using Cons.IH[of "Suc k"] True by simp
    then show ?thesis using True by simp
  next
    case False
    then show ?thesis using Cons.IH[of "Suc k"] by (auto simp: Suc_diff_le)
  qed
qed

lemma sum_list_enumerate_snd:
  "sum_list (map (\<lambda>x. h (snd x)) (enumerate k xs)) = sum_list (map h xs)"
proof -
  have "map (\<lambda>x. h (snd x)) (enumerate k xs) = map h (map snd (enumerate k xs))"
    unfolding map_map by (simp only: comp_def)
  then show ?thesis by (simp only: map_snd_enumerate)
qed

lemma norm_contribution_ranges:
  assumes wf: "wf_layout system d rngs" and c: "contiguous_from 0 rngs"
  shows "norm_contribution system (r, d, rngs)
           = sum_list (map (range_weight (system\<lparr>comm_rank := r\<rparr>) d) rngs)"
proof -
  let ?sys = "system\<lparr>comm_rank := r\<rparr>"
  have ne: "rngs \<noteq> []" and lst: "snd (snd (last rngs)) = length d"
    and stops: "\<forall>(name, start, stop) \<in> set rngs. stop \<le> length d"
    using wf by (auto simp: wf_layout_def)
  have "norm_contribution system (r, d, rngs)
          = sum_list (map (\<lambda>i. (d ! i) ^ 2) (filter (\<lambda>i. \<not> is_dup ?sys rngs i)
               [0..<(if rngs = [] then 0 else snd (snd (last rngs)))]))"
    using ne lst by (simp add: norm_contribution_def owned_inds_def)
  also have "\<dots> = sum_list (map (\<lambda>t. if dup_var ?sys (fst t) then 0
                           else sum_list (map (\<lambda>i. (d ! i) ^ 2) [fst (snd t)..<snd (snd t)])) rngs)"
    using c by (rule tiled_sum)
  also have "\<dots> = sum_list (map (range_weight ?sys d) rngs)"
  proof (rule arg_cong[where f = sum_list], rule map_cong[OF refl])
    fix t assume t: "t \<in> set rngs"
    then have "snd (snd t) \<le> length d" using stops by auto
    then show "(if dup_var ?sys (fst t) then 0
                else sum_list (map (\<lambda>i. (d ! i) ^ 2) [fst (snd t)..<snd (snd t)]))
               = range_weight ?sys d t"
      by (simp add: range_weight_def sum_squares_slice)
  qed
  finally show ?thesis .
qed

lemma sum_squares_concat:
  "sum_list (map (\<lambda>x. (x :: real) ^ 2) (concat xss)) = sum_list (map (\<lambda>xs. sum_list (map (\<lambda>x. x ^ 2) xs)) xss)"
  by (induction xss) simp_all

lemma local_part_squares:
  "sum_list (map (\<lambda>x. x ^ 2) (local_part (d, rngs) name))
     = sum_list (map (\<lambda>t. if fst t = name
                           then sum_list (map (\<lambda>x. x ^ 2) (py_slice d (fst (snd t)) (snd (snd t))))
                           else 0) rngs)"
  unfolding local_part_def sum_squares_concat
  by (simp add: comp_def if_distrib[where f = "\<lambda>xs. sum_list (map (\<lambda>x. x ^ 2) xs)"] cong: if_cong)


lemma local_part_weight:
  "sum_list (map (\<lambda>x. x ^ 2) (local_part layout name)) = name_weight name layout"
proof -
  obtain d rngs where l: "layout = (d, rngs)" by (cases layout)
  show ?thesis unfolding l name_weight_def by (simp only: local_part_squares fst_conv snd_conv)
qed

lemma full_var_squares:
  assumes oh: "owners_hold system layouts" and mem: "name \<in> set (all_names layouts)"
  shows "sum_list (map (\<lambda>x. x ^ 2) (full_var system layouts name))
           = sum_list (map (\<lambda>x. sum_list (map (\<lambda>t. if fst t = name
                                   then range_weight (system\<lparr>comm_rank := fst x\<rparr>) (fst (snd x)) t
                                   else 0) (snd (snd x))))
                        (enumerate 0 layouts))"
proof (cases "var_distributed system name = Some False")
  case True
  have "case owning_rank system name of None \<Rightarrow> False
        | Some r \<Rightarrow> r < length layouts \<and> name \<in> set (map fst (snd (layouts ! r)))"
    using oh mem True by (auto simp: owners_hold_def list_all_iff)
  then obtain r where r: "owning_rank system name = Some r" "r < length layouts"
    by (auto split: option.splits)
  have inner: "sum_list (map (\<lambda>t. if fst t = name
                              then range_weight (system\<lparr>comm_rank := fst x\<rparr>) (fst (snd x)) t
                              else 0) (snd (snd x)))
                 = (if fst x = r then name_weight name (snd x) else 0)" for x
  proof (cases "fst x = r")
    case eq: True
    have "(\<lambda>t. if fst t = name then range_weight (system\<lparr>comm_rank := fst x\<rparr>) (fst (snd x)) t else 0)
            = (\<lambda>t. if fst t = name
                    then sum_list (map (\<lambda>x. x ^ 2) (py_slice (fst (snd x)) (fst (snd t)) (snd (snd t))))
                    else 0)"
      using eq r True by (auto simp: range_weight_def dup_var_def)
    then show ?thesis using eq by (simp add: name_weight_def)
  next
    case ne: False
    have "(\<lambda>t. if fst t = name then range_weight (system\<lparr>comm_rank := fst x\<rparr>) (fst (snd x)) t else 0)
            = (\<lambda>t. 0)"
      using ne r True by (auto simp: range_weight_def dup_var_def)
    then show ?thesis using ne by simp
  qed
  have "sum_list (map (\<lambda>x. x ^ 2) (full_var system layouts name)) = name_weight name (layouts ! r)"
    using True r by (simp add: full_var_def local_part_weight)
  also have "\<dots> = sum_list (map (\<lambda>x. if fst x = r then name_weight name (snd x) else 0)
                         (enumerate 0 layouts))"
    using r(2) by (simp add: sum_list_enumerate_select)
  finally show ?thesis by (simp only: inner)
next
  case False
  have inner: "sum_list (map (\<lambda>t. if fst t = name
                              then range_weight (system\<lparr>comm_rank := fst x\<rparr>) (fst (snd x)) t
                              else 0) (snd (snd x)))
                 = name_weight name (snd x)" for x
  proof -
    have "(\<lambda>t. if fst t = name then range_weight (system\<lparr>comm_rank := fst x\<rparr>) (fst (snd x)) t else 0)
            = (\<lambda>t. if fst t = name
                    then sum_list (map (\<lambda>x. x ^ 2) (py_slice (fst (snd x)) (fst (snd t)) (snd (snd t))))
                    else 0)"
      using False by (auto simp: range_weight_def dup_var_def)
    then show ?thesis by (simp add: name_weight_def)
  qed
  have "sum_list (map (\<lambda>x. x ^ 2) (full_var system layouts name))
          = sum_list (map (name_weight name) layouts)"
    using False by (simp add: full_var_def sum_squares_concat comp_def local_part_weight)
  also have "\<dots> = sum_list (map (\<lambda>x. name_weight name (snd x)) (enumerate 0 layouts))"
    by (simp only: sum_list_enumerate_snd)
  finally show ?thesis by (simp only: inner)
qed

lemma dedup_squares:
  assumes wf: "\<forall>(d, rngs) \<in> set layouts. wf_layout system d rngs"
    and oh: "owners_hold system layouts"
  shows "sum_list (map (\<lambda>x. x ^ 2) (dedup_full_vector system layouts))
           = sum_list (map (norm_contribution system) (enumerate 0 layouts))"
proof -
  let ?en = "enumerate 0 layouts"
  let ?ks = "all_names layouts"
  let ?w = "\<lambda>x t. range_weight (system\<lparr>comm_rank := fst x\<rparr>) (fst (snd x)) t"
  have "sum_list (map (\<lambda>x. x ^ 2) (dedup_full_vector system layouts))
          = sum_list (map (\<lambda>name. sum_list (map (\<lambda>x. x ^ 2) (full_var system layouts name))) ?ks)"
    by (simp add: dedup_full_vector_def sum_squares_concat comp_def)
  also have "\<dots> = sum_list (map (\<lambda>name. sum_list (map (\<lambda>x. sum_list (map (\<lambda>t. if fst t = name
                                   then ?w x t else 0) (snd (snd x)))) ?en)) ?ks)"
  proof (rule arg_cong[where f = sum_list], rule map_cong[OF refl])
    fix name assume "name \<in> set ?ks"
    then show "sum_list (map (\<lambda>x. x ^ 2) (full_var system layouts name))
                 = sum_list (map (\<lambda>x. sum_list (map (\<lambda>t. if fst t = name
                                   then ?w x t else 0) (snd (snd x)))) ?en)"
      by (rule full_var_squares[OF oh])
  qed
  also have "\<dots> = sum_list (map (\<lambda>x. sum_list (map (\<lambda>name. sum_list (map (\<lambda>t. if fst t = name
                                   then ?w x t else 0) (snd (snd x)))) ?ks)) ?en)"
    by (rule sum_list_swap)
  also have "\<dots> = sum_list (map (norm_contribution system) ?en)"
  proof (rule arg_cong[where f = sum_list], rule map_cong[OF refl])
    fix x assume x: "x \<in> set ?en"
    obtain r d rngs where xr: "x = (r, d, rngs)" by (cases x)
    have "r < length layouts \<and> layouts ! r = (d, rngs)"
      using x xr by (auto simp: in_set_enumerate_eq)
    then have mem: "(d, rngs) \<in> set layouts" by (metis nth_mem)
    have w: "wf_layout system d rngs" using wf mem by auto
    have c: "contiguous_from 0 rngs" using oh mem by (auto simp: owners_hold_def list_all_iff)
    have names: "\<forall>t \<in> set rngs. fst t \<in> set ?ks"
      using mem by (force simp: all_names_def)
    have "sum_list (map (\<lambda>name. sum_list (map (\<lambda>t. if fst t = name then ?w x t else 0) rngs)) ?ks)
            = sum_list (map (?w x) rngs)"
      using names by (intro sum_list_regroup) (simp_all add: all_names_def)
    then show "sum_list (map (\<lambda>name. sum_list (map (\<lambda>t. if fst t = name then ?w x t else 0)
                                               (snd (snd x)))) ?ks)
               = norm_contribution system x"
      using norm_contribution_ranges[OF w c, of r] xr by simp
  qed
  finally show ?thesis .
qed

text \<open>
  Claim C5. For two or more processes with well-formed layouts, \<open>get_norm\<close> is the
  square root of the sum, over all processes, of the squares of the locally owned
  entries: an entry that duplicates a variable owned by another process adds nothing,
  so a replicated variable is counted for its owner alone. When the ranges of every
  process follow one another and every variable that is not distributed is owned by
  a process that holds it, this is the norm of the de-duplicated full vector, in
  which every variable appears once. \<open>dot\<close> is the sum of the products of the locally
  owned entries with the entries of the other vector at the same positions. After
  either call the data array of every vector is as before; the zeros are written
  into the scratch array.
\<close>

theorem get_norm_excludes_duplicates:
  assumes size: "1 < length layouts"
    and wf: "\<forall>(d, rngs) \<in> set layouts. wf_layout system d rngs"
    and lens: "list_all2 (\<lambda>(d, rngs) vec. length vec = length d) layouts vecs"
  shows "\<exists>procs procs' procs''.
           make_vectors system layouts = Inr procs \<and>
           map vec_data procs = map fst layouts \<and>
           get_norm procs =
             (Inr (sqrt (sum_list (map (norm_contribution system) (enumerate 0 layouts)))), procs') \<and>
           (owners_hold system layouts \<longrightarrow>
              get_norm procs =
                (Inr (sqrt (sum_list (map (\<lambda>x. x ^ 2) (dedup_full_vector system layouts)))),
                 procs')) \<and>
           map vec_data procs' = map fst layouts \<and>
           dot procs vecs =
             (Inr (sum_list (map (dot_contribution system) (zip (enumerate 0 layouts) vecs))), procs'') \<and>
           map vec_data procs'' = map fst layouts"
proof -
  let ?xs = "enumerate 0 layouts"
  let ?sys = "\<lambda>r. system\<lparr>comm_size := length layouts, comm_rank := r\<rparr>"
  let ?F = "\<lambda>(r, d, rngs). init_dup_inds (?sys r) (new_vector d rngs)"
  let ?N = "\<lambda>(r, d, rngs). map (\<lambda>i. if is_dup (system\<lparr>comm_rank := r\<rparr>) rngs i then 0 else d ! i) [0..<length d]"
  have each: "\<exists>v v'. ?F x = Inr v \<and> vec_data v = fst (snd x) \<and>
                 get_nodup v = (Inr (?N x), v') \<and> vec_data v' = fst (snd x)"
    if x: "x \<in> set ?xs" for x
  proof -
    obtain r d rngs where xr: "x = (r, d, rngs)" by (cases x)
    have "r < length layouts \<and> layouts ! r = (d, rngs)"
      using x xr by (auto simp: in_set_enumerate_eq)
    then have "(d, rngs) \<in> set layouts" by (metis nth_mem)
    then have "wf_layout (?sys r) d rngs" using wf by (auto simp: wf_layout_rank)
    then show ?thesis
      using init_then_nodup[of "?sys r" d rngs] size xr by (simp add: is_dup_size)
  qed
  let ?P = "map (projr \<circ> ?F) ?xs"
  have F: "?F x = Inr ((projr \<circ> ?F) x)" if "x \<in> set ?xs" for x
    using each[OF that] by auto
  have mk: "make_vectors system layouts = Inr ?P"
    unfolding make_vectors_def using F by (intro gather_map_Inr) blast
  have run: "fst (get_nodup ((projr \<circ> ?F) x)) = Inr (?N x)"
    and aft: "vec_data (snd (get_nodup ((projr \<circ> ?F) x))) = fst (snd x)"
    and dat: "vec_data ((projr \<circ> ?F) x) = fst (snd x)" if "x \<in> set ?xs" for x
    using each[OF that] by auto
  have es: "map (fst \<circ> snd) ?xs = map fst layouts"
    by (simp only: map_map[symmetric] map_snd_enumerate)
  have d0: "map vec_data ?P = map fst layouts"
  proof -
    have "map vec_data ?P = map (fst \<circ> snd) ?xs" using dat by (simp add: comp_def)
    then show ?thesis using es by simp
  qed
  have d1: "map vec_data (map snd (map get_nodup ?P)) = map fst layouts"
  proof -
    have "map vec_data (map snd (map get_nodup ?P)) = map (fst \<circ> snd) ?xs"
      using aft by (simp add: comp_def)
    then show ?thesis using es by simp
  qed
  have sq: "sum_list (map (\<lambda>x. x ^ 2) (?N x)) = norm_contribution system x" for x
    by (cases x) (simp add: norm_contribution_def owned_inds_def sum_squares_masked del: map_map)
  have c1: "gather (map (\<lambda>run. case fst run of
                                Inl e \<Rightarrow> Inl e
                              | Inr a \<Rightarrow> Inr (sum_list (map (\<lambda>x. x ^ 2) a))) (map get_nodup ?P))
              = Inr (map (norm_contribution system) ?xs)"
  proof -
    have "map (\<lambda>run. case fst run of
                        Inl e \<Rightarrow> Inl e
                      | Inr a \<Rightarrow> Inr (sum_list (map (\<lambda>x. x ^ 2) a))) (map get_nodup ?P)
          = map (\<lambda>x. Inr (norm_contribution system x)) ?xs"
      using run sq by (simp add: comp_def)
    then show ?thesis by (simp add: gather_map_Inr)
  qed
  have norm: "get_norm ?P = (Inr (sqrt (sum_list (map (norm_contribution system) ?xs))),
                             map snd (map get_nodup ?P))"
    unfolding get_norm_def Let_def c1 by (simp add: allreduce_def)
  have lz: "length vecs = length ?xs" using lens by (simp add: list_all2_lengthD)
  have vl: "length vec = length d" if mem: "((r, d, rngs), vec) \<in> set (zip ?xs vecs)" for r d rngs vec
  proof -
    obtain k where k: "k < length layouts" "?xs ! k = (r, d, rngs)" "vecs ! k = vec"
      using mem lz by (auto simp: in_set_zip)
    have "layouts ! k = (d, rngs)" using k by (auto simp: nth_enumerate_eq)
    then show ?thesis using lens k by (auto simp: list_all2_conv_all_nth)
  qed
  have dp: "np_dot (?N x) vec = Inr (dot_contribution system (x, vec))"
    if mem: "(x, vec) \<in> set (zip ?xs vecs)" for x vec
  proof -
    obtain r d rngs where xr: "x = (r, d, rngs)" by (cases x)
    have l: "length vec = length d" using vl mem xr by simp
    show ?thesis using l xr
      by (simp add: np_dot_def dot_contribution_def owned_inds_def sum_products_masked)
  qed
  have c2: "gather (map (\<lambda>(run, vec). case fst run of
                                       Inl e \<Rightarrow> Inl e
                                     | Inr a \<Rightarrow> np_dot a vec) (zip (map get_nodup ?P) vecs))
              = Inr (map (dot_contribution system) (zip ?xs vecs))"
  proof -
    let ?G = "\<lambda>(run, vec). case fst run of Inl e \<Rightarrow> Inl e | Inr a \<Rightarrow> np_dot a (vec :: real list)"
    let ?H = "\<lambda>p. (get_nodup ((projr \<circ> ?F) (fst p)), snd p)"
    have z: "zip (map get_nodup ?P) vecs = map ?H (zip ?xs vecs)"
      by (simp add: zip_map1 comp_def case_prod_unfold)
    have "map ?G (map ?H (zip ?xs vecs)) = map (\<lambda>p. Inr (dot_contribution system p)) (zip ?xs vecs)"
      unfolding map_map
    proof (rule map_cong[OF refl])
      fix p assume p: "p \<in> set (zip ?xs vecs)"
      obtain x vec where xv: "p = (x, vec)" by (cases p)
      have "x \<in> set ?xs" using p xv by (auto dest: set_zip_leftD)
      then have r: "fst (get_nodup ((projr \<circ> ?F) x)) = Inr (?N x)" by (rule run)
      have "(?G \<circ> ?H) p = (case fst (get_nodup ((projr \<circ> ?F) x)) of
                               Inl e \<Rightarrow> Inl e | Inr a \<Rightarrow> np_dot a vec)"
        using xv by simp
      also have "\<dots> = np_dot (?N x) vec" unfolding r by simp
      also have "\<dots> = Inr (dot_contribution system p)" using dp p xv by simp
      finally show "(?G \<circ> ?H) p = Inr (dot_contribution system p)" .
    qed
    then show ?thesis unfolding z by (simp add: gather_map_Inr)
  qed
  have dt: "dot ?P vecs = (Inr (sum_list (map (dot_contribution system) (zip ?xs vecs))),
                           map snd (map get_nodup ?P))"
    unfolding dot_def Let_def c2 by (simp add: allreduce_def)
  have norm2: "owners_hold system layouts \<longrightarrow>
      get_norm ?P = (Inr (sqrt (sum_list (map (\<lambda>x. x ^ 2) (dedup_full_vector system layouts)))),
                     map snd (map get_nodup ?P))"
    using norm dedup_squares[OF wf] by simp
  show ?thesis using mk d0 norm norm2 d1 dt by blast
qed

theorem get_norm_excludes_duplicates_witness:
  "owners_hold ex_mpi ex_layouts \<and> dedup_full_vector ex_mpi ex_layouts = [3, 4, 12] \<and>
   (\<exists>procs procs' procs''.
     make_vectors ex_mpi ex_layouts = Inr procs \<and>
     get_norm procs = (Inr 13, procs') \<and>
     get_norm procs = (Inr (sqrt (sum_list (map (\<lambda>x. x ^ 2) [3, 4, 12]))), procs') \<and>
     map vec_data procs' = [[3, 4], [4, 12]] \<and>
     dot procs [[1, 1], [1, 1]] = (Inr 19, procs'') \<and> map vec_data procs'' = [[3, 4], [4, 12]])"
proof -
  have oh: "owners_hold ex_mpi ex_layouts"
    by (simp add: owners_hold_def all_names_def ex_layouts_def ex_mpi_def)
  have dd: "dedup_full_vector ex_mpi ex_layouts = [3, 4, 12]"
    by (simp add: dedup_full_vector_def full_var_def local_part_def all_names_def py_slice_def
          ex_layouts_def ex_mpi_def)
  have s: "1 < length ex_layouts" by (simp add: ex_layouts_def)
  have w: "\<forall>(d, rngs) \<in> set ex_layouts. wf_layout ex_mpi d rngs"
    by (simp add: ex_layouts_def wf_layout_def ex_mpi_def)
  have l: "list_all2 (\<lambda>(d, rngs) vec. length vec = length d) ex_layouts [[1, 1], [1, 1]]"
    by (simp add: ex_layouts_def)
  have en: "enumerate 0 ex_layouts =
      [(0, [3, 4], [(''a'', 0, 1), (''b'', 1, 2)]), (1, [4, 12], [(''b'', 0, 1), (''c'', 1, 2)])]"
    by (simp add: ex_layouts_def)
  have n: "sum_list (map (norm_contribution ex_mpi) (enumerate 0 ex_layouts)) = 169"
    unfolding en by (simp only: list.map sum_list.Cons sum_list.Nil ex_contributions)
  have d: "sum_list (map (dot_contribution ex_mpi) (zip (enumerate 0 ex_layouts) [[1, 1], [1, 1]])) = 19"
    unfolding en
    by (simp only: zip_Cons_Cons zip_Nil list.map sum_list.Cons sum_list.Nil ex_contributions)
  have sq: "sqrt 169 = (13::real)" using real_sqrt_abs[of 13] by simp
  have f: "map fst ex_layouts = [[3, 4], [4, 12]]" by (simp add: ex_layouts_def)
  obtain procs procs' procs'' where p:
    "make_vectors ex_mpi ex_layouts = Inr procs"
    "get_norm procs = (Inr 13, procs')"
    "owners_hold ex_mpi ex_layouts \<longrightarrow>
       get_norm procs = (Inr (sqrt (sum_list (map (\<lambda>x. x ^ 2) [3, 4, 12]))), procs')"
    "map vec_data procs' = [[3, 4], [4, 12]]"
    "dot procs [[1, 1], [1, 1]] = (Inr 19, procs'')" "map vec_data procs'' = [[3, 4], [4, 12]]"
    using get_norm_excludes_duplicates [OF s w l] unfolding n d sq f dd by (elim exE conjE)
  have "get_norm procs = (Inr (sqrt (sum_list (map (\<lambda>x. x ^ 2) [3, 4, 12]))), procs')"
    using p(3) oh by simp
  then show ?thesis using oh dd p(1,2,4,5,6) by (intro exI conjI)
qed

section \<open>Properties of the minimum-improvement fallback\<close>

lemma evaluations_deactivated:
  "evaluations k DEACTIVATED n = (DEACTIVATED, replicate k n)"
  by (induction k)
     (simp_all add: evaluate_jacobian_def colors_of_def retained_coloring_def uncolored_def)

text \<open>
  Claim C6. When the improvement of a computed coloring, \<open>1 - num_colors /
  num_columns\<close>, is below \<open>min_improve_pct\<close>, the coloring is deactivated and exactly
  one warning is emitted, which names the block and holds the measured and the
  required value; nothing is raised. No coloring is retained, and each of any number
  of later Jacobian evaluations runs the model once for each of the \<open>N\<close> columns and
  leaves the block deactivated.
\<close>

theorem below_min_improvement_deactivates:
  assumes "improvement_pct colors n < min_improve_pct"
  shows "check_improvement name min_improve_pct n (COLORED colors) =
           (DEACTIVATED, [ColoringDeactivated name (improvement_pct colors n) min_improve_pct]) \<and>
         retained_coloring DEACTIVATED = None \<and>
         length (uncolored n) = n \<and>
         (\<forall>k. evaluations k DEACTIVATED n = (DEACTIVATED, replicate k n))"
  using assms
  by (simp add: check_improvement_def retained_coloring_def uncolored_def evaluations_deactivated)

theorem below_min_improvement_deactivates_witness:
  "improvement_pct test_coloring 6 < 1 / 5 \<and>
   check_improvement ''comp'' (1 / 5) 6 (COLORED test_coloring) =
     (DEACTIVATED, [ColoringDeactivated ''comp'' (improvement_pct test_coloring 6) (1 / 5)]) \<and>
   evaluations 1 DEACTIVATED 6 = (DEACTIVATED, [6])"
proof -
  have h: "improvement_pct test_coloring 6 < 1 / 5"
    by (simp add: improvement_pct_def test_coloring_def)
  have "replicate 1 (6::nat) = [6]" by simp
  then show ?thesis
    using h below_min_improvement_deactivates [OF h, of "''comp''"] by (metis)
qed

end
